theory Spec2Isabelle
  imports Main "HOL-Library.Sublist" "HOL-Library.AList"
begin

section \<open>SithCodec: header registry, format detection, transforms and batches\<close>

text \<open>
  The development follows \<^verbatim>\<open>src/src/codec.cpp\<close> and the declarations of
  \<^verbatim>\<open>codec.h\<close> (the 2022 library), and the older
  \<^verbatim>\<open>SithCodec/SithCodec/SithCodec.h\<close> (the 2020 library) where a property
  refers to it. A C++ \<^verbatim>\<open>char\<close> is a \<^typ>\<open>char\<close>, so a file's contents
  and a \<^verbatim>\<open>char\<close> buffer are both a \<^typ>\<open>char list\<close>;
  a \<^verbatim>\<open>std::filesystem::path\<close> is the string it was built from.
\<close>

subsection \<open>Header registry\<close>

datatype AudioFormat = NONE | SFX | VO

text \<open>
  Modelled from the spec: \<^verbatim>\<open>fileheaders.h\<close> (the constants
  \<^verbatim>\<open>Header::sfx\<close>, \<^verbatim>\<open>Header::vo\<close>, \<^verbatim>\<open>Header::sfxSize\<close>,
  \<^verbatim>\<open>Header::voSize\<close> and \<^verbatim>\<open>Header::maxSize\<close>) is not part of the
  sources. The two signatures are therefore a parameter of every operation; each size is
  the length of its signature and \<open>maxSize\<close> is the larger of the two, as the spec's
  registry has it (\<open>maxSignatureLength\<close>).
\<close>

record Header =
  sfx :: "char list"
  vo :: "char list"

definition sfxSize :: "Header \<Rightarrow> nat" where
  "sfxSize h = length (sfx h)"

definition voSize :: "Header \<Rightarrow> nat" where
  "voSize h = length (vo h)"

definition maxSize :: "Header \<Rightarrow> nat" where
  "maxSize h = max (sfxSize h) (voSize h)"

text \<open>
  The signature table of the spec's concrete scenario: SFX is \<open>52 49 46 46\<close>,
  VO is \<open>FF FB\<close>.
\<close>

definition testHeader :: Header where
  "testHeader = \<lparr> sfx = [CHR 0x52, CHR 0x49, CHR 0x46, CHR 0x46], vo = [CHR 0xFF, CHR 0xFB] \<rparr>"

text \<open>\<^verbatim>\<open>getHeader\<close>: the null pointer of the default case is \<open>None\<close>.\<close>

fun getHeader :: "Header \<Rightarrow> AudioFormat \<Rightarrow> char list option" where
  "getHeader h SFX = Some (sfx h)"
| "getHeader h VO = Some (vo h)"
| "getHeader h NONE = None"

fun sizeOfHeader :: "Header \<Rightarrow> AudioFormat \<Rightarrow> nat" where
  "sizeOfHeader h SFX = sfxSize h"
| "sizeOfHeader h VO = voSize h"
| "sizeOfHeader h NONE = maxSize h"

definition wav :: string where
  "wav = ''.wav''"

definition mp3 :: string where
  "mp3 = ''.mp3''"

definition getEncodeExtension :: "AudioFormat \<Rightarrow> string" where
  "getEncodeExtension format = wav"

definition getDecodeExtension :: "AudioFormat \<Rightarrow> string" where
  "getDecodeExtension format = (if format = VO then mp3 else wav)"

subsection \<open>Input streams\<close>

text \<open>
  A \<^verbatim>\<open>std::istream\<close> on a file: the bytes of the file, the read position of its
  stream buffer, and the two state bits the library sets here. Every member function that
  the code calls is written with the state handling of the C++17 library:
  \<^item> the sentry of an unformatted input function sets \<open>failbit\<close> when the stream is not
    good, and the function then does nothing;
  \<^item> \<^verbatim>\<open>tellg\<close> returns \<open>-1\<close> when the stream has failed;
  \<^item> \<^verbatim>\<open>seekg\<close> clears \<open>eofbit\<close> first, and repositions only if the stream has
    not failed;
  \<^item> \<^verbatim>\<open>read\<close> of \<open>n\<close> characters that meets the end of the file first stores what
    there is and sets \<open>eofbit\<close> and \<open>failbit\<close>;
  \<^item> an \<^verbatim>\<open>istreambuf_iterator\<close> reads the stream buffer directly, whatever the
    state bits are.
\<close>

record istream =
  content :: "char list"
  gpos :: nat
  failbit :: bool
  eofbit :: bool

definition openStream :: "char list \<Rightarrow> istream" where
  "openStream bs = \<lparr> content = bs, gpos = 0, failbit = False, eofbit = False \<rparr>"

definition good :: "istream \<Rightarrow> bool" where
  "good s = (\<not> failbit s \<and> \<not> eofbit s)"

definition sentry :: "istream \<Rightarrow> istream" where
  "sentry s = (if good s then s else s\<lparr> failbit := True \<rparr>)"

definition tellg :: "istream \<Rightarrow> int \<times> istream" where
  "tellg s = (let s' = sentry s in (if failbit s' then - 1 else int (gpos s'), s'))"

definition seekg :: "istream \<Rightarrow> int \<Rightarrow> istream" where
  "seekg s off =
     (let s' = sentry (s\<lparr> eofbit := False \<rparr>) in
      if failbit s' then s'
      else if off < 0 then s'\<lparr> failbit := True \<rparr>
      else s'\<lparr> gpos := nat off \<rparr>)"

definition read :: "istream \<Rightarrow> nat \<Rightarrow> char list \<times> istream" where
  "read s n =
     (if \<not> good s then ([], s\<lparr> failbit := True \<rparr>)
      else
        let got = take n (drop (gpos s) (content s));
            s' = s\<lparr> gpos := gpos s + length got \<rparr>
        in (got, if length got < n then s'\<lparr> failbit := True, eofbit := True \<rparr> else s'))"

text \<open>
  \<^verbatim>\<open>copy(istreambuf_iterator(input), {}, ostreambuf_iterator(output))\<close>: everything
  from the buffer's read position to the end of the file.
\<close>

definition copyRest :: "istream \<Rightarrow> char list \<times> istream" where
  "copyRest s = (drop (gpos s) (content s), s\<lparr> gpos := max (gpos s) (length (content s)) \<rparr>)"

subsection \<open>Format detection\<close>

text \<open>
  \<^verbatim>\<open>formatOf\<close> (codec.cpp). The local array \<^verbatim>\<open>char header[Header::maxSize]\<close>
  is not initialised: \<open>stale\<close> is what the array holds when the function is entered, and
  \<^verbatim>\<open>read\<close> overwrites only as many characters as it extracts. The function has no
  \<^verbatim>\<open>throw\<close>; it returns the format and leaves the stream in the second component.
\<close>

definition fillBuffer :: "nat \<Rightarrow> char list \<Rightarrow> char list \<Rightarrow> char list" where
  "fillBuffer n stale got = take n (got @ drop (length got) stale)"

definition formatOf :: "Header \<Rightarrow> char list \<Rightarrow> istream \<Rightarrow> AudioFormat \<times> istream" where
  "formatOf h stale file =
     (let (pos, s1) = tellg file;
          s2 = seekg s1 0;
          (got, s3) = read s2 (maxSize h);
          header = fillBuffer (maxSize h) stale got;
          s4 = seekg s3 pos
      in (if sfxSize h \<noteq> 0 \<and> take (sfxSize h) header = sfx h then SFX
          else if voSize h \<noteq> 0 \<and> take (voSize h) header = vo h then VO
          else NONE, s4))"

text \<open>\<^verbatim>\<open>skipHeader\<close>: no case for the format \<open>NONE\<close>.\<close>

fun skipHeader :: "Header \<Rightarrow> istream \<Rightarrow> AudioFormat \<Rightarrow> istream" where
  "skipHeader h input SFX = seekg input (int (sfxSize h))"
| "skipHeader h input VO = seekg input (int (voSize h))"
| "skipHeader h input NONE = input"

subsection \<open>Paths\<close>

text \<open>
  The members of \<^verbatim>\<open>std::filesystem::path\<close> that the code calls, on the generic
  format with \<open>/\<close> as the separator. A file is identified by the string of its path:
  the model has no symbolic links and does not identify \<open>a/b\<close> with \<open>a//b\<close>
  or \<open>./a/b\<close>.
\<close>

type_synonym path = string

definition filename :: "path \<Rightarrow> string" where
  "filename p = rev (takeWhile (\<lambda>c. c \<noteq> CHR ''/'') (rev p))"

text \<open>
  \<^verbatim>\<open>parent_path\<close>: empty when the path has no separator, the root for a name directly
  under the root (and for the root itself).
\<close>

definition parent_path :: "path \<Rightarrow> path" where
  "parent_path p =
     (let d = dropWhile (\<lambda>c. c \<noteq> CHR ''/'') (rev p);
          d' = dropWhile (\<lambda>c. c = CHR ''/'') d
      in if d = [] then [] else if d' = [] then ''/'' else rev d')"

text \<open>
  \<^verbatim>\<open>extension\<close>: from the rightmost period of the filename, unless the filename is
  \<open>.\<close> or \<open>..\<close>, has no period, or has its only period in front.
\<close>

definition extension :: "path \<Rightarrow> string" where
  "extension p =
     (let f = filename p;
          e = takeWhile (\<lambda>c. c \<noteq> CHR ''.'') (rev f)
      in if f = ''.'' \<or> f = ''..'' \<or> CHR ''.'' \<notin> set f \<or> Suc (length e) = length f then []
         else CHR ''.'' # rev e)"

definition replace_extension :: "path \<Rightarrow> string \<Rightarrow> path" where
  "replace_extension p ext =
     (let stem = take (length p - length (extension p)) p
      in if ext = [] then stem
         else if hd ext = CHR ''.'' then stem @ ext
         else stem @ ''.'' @ ext)"

text \<open>\<^verbatim>\<open>operator/\<close>.\<close>

definition path_append :: "path \<Rightarrow> path \<Rightarrow> path" where
  "path_append p q =
     (if q \<noteq> [] \<and> hd q = CHR ''/'' then q
      else if p = [] then q
      else if last p = CHR ''/'' then p @ q
      else p @ ''/'' @ q)"

text \<open>
  \<^verbatim>\<open>getRelativePath\<close>. \<^verbatim>\<open>std::filesystem::relative\<close> resolves both paths
  against the file system of the machine; it is the parameter \<open>relative\<close>.
\<close>

definition getRelativePath :: "(path \<Rightarrow> path \<Rightarrow> path) \<Rightarrow> path \<Rightarrow> path \<Rightarrow> path" where
  "getRelativePath relative p directory =
     (let relativePath = relative p directory
      in if relativePath = [] then filename p else relativePath)"

subsection \<open>Error messages\<close>

definition quoted :: "path \<Rightarrow> string" where
  "quoted p = CHR 0x22 # p @ [CHR 0x22]"

definition openErrorMsg :: "path \<Rightarrow> string" where
  "openErrorMsg p = ''Failed to open '' @ quoted p @ ''.''"

definition eofErrorMsg :: "path \<Rightarrow> string" where
  "eofErrorMsg p = ''Reached end of '' @ quoted p @ '' before data could be read.''"

definition writeErrorMsg :: "path \<Rightarrow> string" where
  "writeErrorMsg p = ''Failed to write '' @ quoted p @ ''.''"

definition deleteErrorMsg :: "path \<Rightarrow> string" where
  "deleteErrorMsg p = ''Failed to delete '' @ quoted p @ ''.''"

text \<open>
  What the code throws: a \<^verbatim>\<open>runtime_error\<close> with one of the messages above, or the
  \<^verbatim>\<open>filesystem_error\<close> of a library call (named by the call). Both derive from
  \<^verbatim>\<open>std::exception\<close>; \<open>what\<close> is the message a handler reads.
\<close>

datatype error = OpenError path | WriteError path | DeleteError path | FilesystemError string

fun what :: "error \<Rightarrow> string" where
  "what (OpenError p) = openErrorMsg p"
| "what (WriteError p) = writeErrorMsg p"
| "what (DeleteError p) = deleteErrorMsg p"
| "what (FilesystemError call) = ''filesystem error: '' @ call"

subsection \<open>The file system\<close>

text \<open>
  The machine the library runs on: the directory entries in the order a directory
  iterator lists them, the paths the process may neither open nor delete, the directory
  that \<^verbatim>\<open>temp_directory_path\<close> names, the string that the \<open>i\<close>-th call of
  \<^verbatim>\<open>getRandomString\<close> returns, and the number of calls made so far.
\<close>

datatype node = File "char list" | Dir

record world =
  nodes :: "(path \<times> node) list"
  denied :: "path list"
  tmpdir :: path
  names :: "nat \<Rightarrow> string"
  drawn :: nat

definition lookup :: "world \<Rightarrow> path \<Rightarrow> node option" where
  "lookup w p = map_of (nodes w) p"

definition exists :: "world \<Rightarrow> path \<Rightarrow> bool" where
  "exists w p = (lookup w p \<noteq> None)"

definition is_directory :: "world \<Rightarrow> path \<Rightarrow> bool" where
  "is_directory w p = (lookup w p = Some Dir)"

definition store :: "world \<Rightarrow> path \<Rightarrow> node \<Rightarrow> world" where
  "store w p n = w\<lparr> nodes := AList.update p n (nodes w) \<rparr>"

definition has_children :: "world \<Rightarrow> path \<Rightarrow> bool" where
  "has_children w p = list_ex (\<lambda>(q, n). q \<noteq> p \<and> parent_path q = p) (nodes w)"

text \<open>Opening a file for reading (\<^verbatim>\<open>ifstream\<close>): its contents, or \<open>None\<close>.\<close>

definition readFile :: "world \<Rightarrow> path \<Rightarrow> char list option" where
  "readFile w p =
     (case lookup w p of
        Some (File bs) \<Rightarrow> if p \<in> set (denied w) then None else Some bs
      | _ \<Rightarrow> None)"

text \<open>
  Opening a file for writing (\<^verbatim>\<open>ofstream\<close>) creates it or empties it; it fails on a
  directory, in a directory that does not exist, and on a path without access.
\<close>

definition createFile :: "world \<Rightarrow> path \<Rightarrow> world option" where
  "createFile w p =
     (if p \<in> set (denied w) \<or> is_directory w p
         \<or> (parent_path p \<noteq> [] \<and> \<not> is_directory w (parent_path p))
      then None else Some (store w p (File [])))"

text \<open>The characters written to an open \<^verbatim>\<open>ofstream\<close> are the file's contents when it is closed.\<close>

definition writeFile :: "world \<Rightarrow> path \<Rightarrow> char list \<Rightarrow> world" where
  "writeFile w p bs = store w p (File bs)"

text \<open>
  \<^verbatim>\<open>remove(p, error)\<close>: \<open>None\<close> is a set error code. Removing what does not exist is
  no error; a directory must be empty.
\<close>

definition remove_fs :: "world \<Rightarrow> path \<Rightarrow> world option" where
  "remove_fs w p =
     (case lookup w p of
        None \<Rightarrow> Some w
      | Some n \<Rightarrow>
          if p \<in> set (denied w) \<or> (n = Dir \<and> has_children w p) then None
          else Some (w\<lparr> nodes := AList.delete p (nodes w) \<rparr>))"

text \<open>Making one directory: nothing to do when it is there, an error on a file.\<close>

definition mkdir :: "world \<Rightarrow> path \<Rightarrow> bool \<times> world" where
  "mkdir w p =
     (if exists w p then (is_directory w p, w)
      else if p \<in> set (denied w) then (False, w)
      else (True, store w p Dir))"

text \<open>
  \<^verbatim>\<open>create_directories\<close>: the missing ancestors first, then the directory. \<open>False\<close>
  is the \<^verbatim>\<open>filesystem_error\<close>; directories made before the failure stay.
\<close>

function create_directories :: "world \<Rightarrow> path \<Rightarrow> bool \<times> world" where
  "create_directories w p =
     (if is_directory w p then (True, w)
      else if exists w p \<or> p = [] then (False, w)
      else if parent_path p = [] \<or> parent_path p = p then mkdir w p
      else (case create_directories w (parent_path p) of
              (False, w') \<Rightarrow> (False, w')
            | (True, w') \<Rightarrow> mkdir w' p))"
  by pat_completeness auto
termination
proof (relation "measure (\<lambda>(w, p). length p)")
  show "wf (measure (\<lambda>(w, p). length p))"
    by simp
next
  fix w :: world and p :: path
  assume ne: "\<not> (parent_path p = [] \<or> parent_path p = p)"
  define d where "d = dropWhile (\<lambda>c. c \<noteq> CHR ''/'') (rev p)"
  define d' where "d' = dropWhile (\<lambda>c. c = CHR ''/'') d"
  have pp: "parent_path p = (if d = [] then [] else if d' = [] then ''/'' else rev d')"
    unfolding parent_path_def d_def d'_def Let_def by (rule refl)
  have dne: "d \<noteq> []"
  proof
    assume "d = []"
    with pp have "parent_path p = []" by simp
    with ne show False by simp
  qed
  have hdd: "\<And>xs. dropWhile (\<lambda>c. c \<noteq> CHR ''/'') xs \<noteq> [] \<Longrightarrow>
      hd (dropWhile (\<lambda>c. c \<noteq> CHR ''/'') xs) = CHR ''/''"
  proof -
    fix xs :: string
    show "dropWhile (\<lambda>c. c \<noteq> CHR ''/'') xs \<noteq> [] \<Longrightarrow>
      hd (dropWhile (\<lambda>c. c \<noteq> CHR ''/'') xs) = CHR ''/''"
      by (induction xs) (auto split: if_splits)
  qed
  from dne have "hd d = CHR ''/''"
    unfolding d_def by (rule hdd)
  with dne obtain t where dt: "d = CHR ''/'' # t"
    by (cases d) simp_all
  have "length (dropWhile (\<lambda>c. c = CHR ''/'') t) \<le> length t"
    by (rule length_dropWhile_le)
  with dt have l1: "length d' < length d"
    unfolding d'_def by simp
  have "length d \<le> length (rev p)"
    unfolding d_def by (rule length_dropWhile_le)
  then have l2: "length d \<le> length p"
    by simp
  have "length (parent_path p) < length p"
  proof (cases "d' = []")
    case False
    with pp dne have "parent_path p = rev d'" by simp
    with l1 l2 show ?thesis by simp
  next
    case True
    with pp dne have root: "parent_path p = ''/''" by simp
    from dt l2 have "1 \<le> length p" by simp
    moreover have "length p \<noteq> 1"
    proof
      assume "length p = 1"
      then obtain c where pc: "p = [c]"
        by (cases p) simp_all
      have "c = CHR ''/''"
      proof (rule ccontr)
        assume "c \<noteq> CHR ''/''"
        with pc have "d = []" unfolding d_def by simp
        with dne show False by simp
      qed
      with pc root ne show False by simp
    qed
    ultimately show ?thesis using root by simp
  qed
  then show "((w, parent_path p), (w, p)) \<in> measure (\<lambda>(w, p). length p)"
    by simp
qed

declare create_directories.simps [simp del]

text \<open>
  \<^verbatim>\<open>rename(old, new)\<close> of a regular file: it replaces a file at \<open>new\<close>; it fails
  (\<open>None\<close>, a \<^verbatim>\<open>filesystem_error\<close>) when \<open>old\<close> is not a file, when \<open>new\<close> is a
  directory, and when the directory of \<open>new\<close> does not exist. The code renames only the
  temporary file it has written, so renaming a directory is not modelled.
\<close>

definition rename :: "world \<Rightarrow> path \<Rightarrow> path \<Rightarrow> world option" where
  "rename w old new =
     (case lookup w old of
        Some (File bs) \<Rightarrow>
          if old = new then Some w
          else if is_directory w new
                  \<or> (parent_path new \<noteq> [] \<and> \<not> is_directory w (parent_path new)) then None
          else Some (w\<lparr> nodes := AList.update new (File bs) (AList.delete old (nodes w)) \<rparr>)
      | _ \<Rightarrow> None)"

subsection \<open>Single-file transforms\<close>

text \<open>
  How a call ends: it returns, leaving a file system behind; it throws, leaving one behind
  as well; it has undefined behaviour; or it never ends, drawing random names for ever.
\<close>

datatype 'a outcome = Returns 'a world | Throws error world | Undefined | Unfinished

text \<open>A call ends when it returns or throws; \<open>final_world\<close> is what it leaves behind.\<close>

definition final_world :: "'a outcome \<Rightarrow> world option" where
  "final_world r =
     (case r of
        Returns x w \<Rightarrow> Some w
      | Throws e w \<Rightarrow> Some w
      | Undefined \<Rightarrow> None
      | Unfinished \<Rightarrow> None)"

definition ends :: "'a outcome \<Rightarrow> bool" where
  "ends r = (final_world r \<noteq> None)"

definition returned :: "'a outcome \<Rightarrow> bool" where
  "returned r = (case r of Returns x w \<Rightarrow> True | Throws e w \<Rightarrow> False
                 | Undefined \<Rightarrow> False | Unfinished \<Rightarrow> False)"

definition thrown :: "'a outcome \<Rightarrow> error option" where
  "thrown r = (case r of Returns x w \<Rightarrow> None | Throws e w \<Rightarrow> Some e
               | Undefined \<Rightarrow> None | Unfinished \<Rightarrow> None)"

text \<open>What is at a path when the call has ended.\<close>

definition fileAfter :: "'a outcome \<Rightarrow> path \<Rightarrow> node option" where
  "fileAfter r p = (case final_world r of None \<Rightarrow> None | Some w \<Rightarrow> lookup w p)"

text \<open>
  Two states of the machine with the same temporary directory and the same random strings;
  and a machine whose random strings name pairwise different temporary paths, a supply in
  which the loop of \<^verbatim>\<open>getTempPath\<close> always finds a free name.
\<close>

definition same_env :: "world \<Rightarrow> world \<Rightarrow> bool" where
  "same_env w w' = (tmpdir w' = tmpdir w \<and> names w' = names w)"

definition distinctTempNames :: "world \<Rightarrow> bool" where
  "distinctTempNames w = inj (\<lambda>i. path_append (tmpdir w) (names w i))"

text \<open>
  The loop of \<^verbatim>\<open>getTempPath\<close>,
  \<^verbatim>\<open>do tempPath = temp_directory_path() / getRandomString(chars, length); while( exists(tempPath) );\<close>
  from the \<open>i\<close>-th random string on: the path found and the number of strings drawn,
  or \<open>None\<close> when every path tried exists.
\<close>

partial_function (option) drawTempPath :: "world \<Rightarrow> nat \<Rightarrow> (path \<times> nat) option" where
  "drawTempPath w i =
     (if exists w (path_append (tmpdir w) (names w i)) then drawTempPath w (Suc i)
      else Some (path_append (tmpdir w) (names w i), Suc i))"

text \<open>
  \<^verbatim>\<open>getTempPath\<close>: \<^verbatim>\<open>temp_directory_path\<close> throws when its directory does not
  exist.
\<close>

definition getTempPath :: "world \<Rightarrow> path outcome" where
  "getTempPath w =
     (if \<not> is_directory w (tmpdir w) then Throws (FilesystemError ''temp_directory_path'') w
      else case drawTempPath w (drawn w) of
             None \<Rightarrow> Unfinished
           | Some (tempPath, i) \<Rightarrow> Returns tempPath (w\<lparr> drawn := i \<rparr>))"

text \<open>
  \<^verbatim>\<open>output.write(header, headerSize)\<close>: the first \<open>headerSize\<close> characters
  at the pointer. Reading through a null pointer, or past the array, is undefined
  behaviour (\<open>None\<close>).
\<close>

definition ostream_write :: "char list option \<Rightarrow> nat \<Rightarrow> char list option" where
  "ostream_write src n =
     (case src of
        None \<Rightarrow> if n = 0 then Some [] else None
      | Some bs \<Rightarrow> if n \<le> length bs then Some (take n bs) else None)"

text \<open>
  The end of \<^verbatim>\<open>encode\<close> and of \<^verbatim>\<open>decode\<close> (codec.cpp, from
  \<^verbatim>\<open>if( exists(outputPath) )\<close> to the \<^verbatim>\<open>rename\<close>), the same statements in
  both.
\<close>

definition finishOutput :: "world \<Rightarrow> path \<Rightarrow> path \<Rightarrow> string \<Rightarrow> unit outcome" where
  "finishOutput w tempPath outputPath ext =
     (if exists w outputPath then
        (case remove_fs w outputPath of
           None \<Rightarrow> Throws (DeleteError outputPath) w
         | Some w1 \<Rightarrow>
             (case rename w1 tempPath (replace_extension outputPath ext) of
                None \<Rightarrow> Throws (FilesystemError ''rename'') w1
              | Some w2 \<Rightarrow> Returns () w2))
      else
        (case (if parent_path outputPath \<noteq> [] then create_directories w (parent_path outputPath)
               else (True, w)) of
           (False, w1) \<Rightarrow> Throws (FilesystemError ''create_directories'') w1
         | (True, w1) \<Rightarrow>
             (case rename w1 tempPath (replace_extension outputPath ext) of
                None \<Rightarrow> Throws (FilesystemError ''rename'') w1
              | Some w2 \<Rightarrow> Returns () w2)))"

text \<open>\<^verbatim>\<open>encode\<close> (codec.cpp).\<close>

definition encode :: "Header \<Rightarrow> world \<Rightarrow> path \<Rightarrow> AudioFormat \<Rightarrow> path \<Rightarrow> unit outcome" where
  "encode h w inputPath format outputPath =
     (case readFile w inputPath of
        None \<Rightarrow> Throws (OpenError inputPath) w
      | Some bytes \<Rightarrow>
          (case getTempPath w of
             Returns tempPath w1 \<Rightarrow>
               (case createFile w1 tempPath of
                  None \<Rightarrow> Throws (WriteError tempPath) w1
                | Some w2 \<Rightarrow>
                    (case ostream_write (getHeader h format) (sizeOfHeader h format) of
                       None \<Rightarrow> Undefined
                     | Some written \<Rightarrow>
                         let (payload, input) = copyRest (openStream bytes);
                             w3 = writeFile w2 tempPath (written @ payload)
                         in finishOutput w3 tempPath outputPath (getEncodeExtension format)))
           | Throws e w1 \<Rightarrow> Throws e w1
           | Undefined \<Rightarrow> Undefined
           | Unfinished \<Rightarrow> Unfinished))"

text \<open>
  What \<^verbatim>\<open>decode\<close> writes to its temporary file, and the format it detected:
  \<^verbatim>\<open>formatOf\<close>, \<^verbatim>\<open>skipHeader\<close> and the copy, on the stream just opened.
\<close>

definition decodeStream :: "Header \<Rightarrow> char list \<Rightarrow> char list \<Rightarrow> AudioFormat \<times> char list" where
  "decodeStream h stale bytes =
     (let (format, s1) = formatOf h stale (openStream bytes);
          s2 = skipHeader h s1 format;
          (payload, s3) = copyRest s2
      in (format, payload))"

text \<open>\<^verbatim>\<open>decode\<close> (codec.cpp).\<close>

definition decode :: "Header \<Rightarrow> char list \<Rightarrow> world \<Rightarrow> path \<Rightarrow> path \<Rightarrow> unit outcome" where
  "decode h stale w inputPath outputPath =
     (case readFile w inputPath of
        None \<Rightarrow> Throws (OpenError inputPath) w
      | Some bytes \<Rightarrow>
          (case getTempPath w of
             Returns tempPath w1 \<Rightarrow>
               (case createFile w1 tempPath of
                  None \<Rightarrow> Throws (WriteError tempPath) w1
                | Some w2 \<Rightarrow>
                    let (format, payload) = decodeStream h stale bytes;
                        w3 = writeFile w2 tempPath payload
                    in finishOutput w3 tempPath outputPath (getDecodeExtension format))
           | Throws e w1 \<Rightarrow> Throws e w1
           | Undefined \<Rightarrow> Undefined
           | Unfinished \<Rightarrow> Unfinished))"

text \<open>
  The round trip of the spec's testable properties: \<^verbatim>\<open>encode\<close>, then
  \<^verbatim>\<open>decode\<close> of the file that \<^verbatim>\<open>encode\<close> produced.
\<close>

definition roundTrip :: "Header \<Rightarrow> char list \<Rightarrow> world \<Rightarrow> path \<Rightarrow> AudioFormat \<Rightarrow> path \<Rightarrow> path \<Rightarrow>
    unit outcome" where
  "roundTrip h stale w inputPath format encodedPath decodedPath =
     (case encode h w inputPath format encodedPath of
        Returns u w1 \<Rightarrow>
          decode h stale w1 (replace_extension encodedPath (getEncodeExtension format)) decodedPath
      | Throws e w1 \<Rightarrow> Throws e w1
      | Undefined \<Rightarrow> Undefined
      | Unfinished \<Rightarrow> Unfinished)"

subsection \<open>Batches\<close>

record FileOperation =
  path :: path
  error :: "string option"

text \<open>
  \<^verbatim>\<open>getline(file, str)\<close> on what is left of the file: the line and the rest, or
  \<open>None\<close> when nothing could be extracted. A line ends at a newline character, which is
  dropped, or at the end of the file.
\<close>

definition getline :: "string \<Rightarrow> (string \<times> string) option" where
  "getline s =
     (if s = [] then None
      else let str = takeWhile (\<lambda>c. c \<noteq> CHR 0x0A) s
           in Some (str, drop (Suc (length str)) s))"

function readLines :: "string \<Rightarrow> string list" where
  "readLines s = (case getline s of None \<Rightarrow> [] | Some (str, rest) \<Rightarrow> str # readLines rest)"
  by pat_completeness auto
termination
  by (relation "measure length") (auto simp: getline_def Let_def split: if_splits)

declare readLines.simps [simp del]

definition loadOperationsFromFile :: "world \<Rightarrow> path \<Rightarrow> error + FileOperation list" where
  "loadOperationsFromFile w p =
     (case readFile w p of
        None \<Rightarrow> Inl (OpenError p)
      | Some s \<Rightarrow> Inr (map (\<lambda>str. \<lparr> path = str, error = None \<rparr>) (readLines s)))"

text \<open>
  \<^verbatim>\<open>loadOperationsFromFolder\<close>: the entries beneath the directory that are not
  directories, in the order the iterator lists them.
\<close>

definition beneath :: "path \<Rightarrow> path \<Rightarrow> bool" where
  "beneath directory q = strict_prefix (path_append directory []) q"

definition loadOperationsFromFolder :: "world \<Rightarrow> path \<Rightarrow> FileOperation list" where
  "loadOperationsFromFolder w p =
     map (\<lambda>(q, n). \<lparr> path = q, error = None \<rparr>)
       (filter (\<lambda>(q, n). beneath p q \<and> n \<noteq> Dir) (nodes w))"

definition loadOperations :: "world \<Rightarrow> path \<Rightarrow> error + FileOperation list" where
  "loadOperations w p =
     (if is_directory w p then Inr (loadOperationsFromFolder w p)
      else loadOperationsFromFile w p)"

text \<open>
  The loop of \<^verbatim>\<open>encodeAll\<close> and of \<^verbatim>\<open>decodeAll\<close>:
  \<^verbatim>\<open>for( auto& op : operations ) { try { ... } catch( const exception& ex ) { op.error = ex.what(); } }\<close>
  with the call of the \<^verbatim>\<open>try\<close> block as \<open>transform\<close>. The loop counts its
  iterations from \<open>i\<close>, and the call is given the number of its iteration: what a call
  finds in uninitialised memory may differ from one iteration to the next.
\<close>

definition prepend :: "FileOperation \<Rightarrow> FileOperation list outcome \<Rightarrow> FileOperation list outcome" where
  "prepend op r =
     (case r of
        Returns ops w \<Rightarrow> Returns (op # ops) w
      | Throws e w \<Rightarrow> Throws e w
      | Undefined \<Rightarrow> Undefined
      | Unfinished \<Rightarrow> Unfinished)"

fun forEach :: "(nat \<Rightarrow> world \<Rightarrow> FileOperation \<Rightarrow> unit outcome) \<Rightarrow> nat \<Rightarrow> world \<Rightarrow>
    FileOperation list \<Rightarrow> FileOperation list outcome" where
  "forEach transform i w [] = Returns [] w"
| "forEach transform i w (op # ops) =
     (case transform i w op of
        Returns u w' \<Rightarrow> prepend op (forEach transform (Suc i) w' ops)
      | Throws e w' \<Rightarrow>
          prepend (op\<lparr> error := Some (what e) \<rparr>) (forEach transform (Suc i) w' ops)
      | Undefined \<Rightarrow> Undefined
      | Unfinished \<Rightarrow> Unfinished)"

text \<open>The operations a batch returned.\<close>

definition operationsOf :: "FileOperation list outcome \<Rightarrow> FileOperation list" where
  "operationsOf r = (case r of Returns ops w \<Rightarrow> ops | Throws e w \<Rightarrow> []
                     | Undefined \<Rightarrow> [] | Unfinished \<Rightarrow> [])"

text \<open>The error field of an operation after its call has ended as \<open>r\<close>.\<close>

definition recorded :: "unit outcome \<Rightarrow> string option \<Rightarrow> string option" where
  "recorded r old =
     (case r of
        Returns u w \<Rightarrow> old
      | Throws e w \<Rightarrow> Some (what e)
      | Undefined \<Rightarrow> old
      | Unfinished \<Rightarrow> old)"

text \<open>
  The checks that open \<^verbatim>\<open>encodeAll\<close> and \<^verbatim>\<open>decodeAll\<close>, up to
  \<^verbatim>\<open>loadOperations\<close>: the output directory and the operations, or what is thrown.
\<close>

definition prepareAll :: "world \<Rightarrow> path \<Rightarrow> path \<Rightarrow> (path \<times> FileOperation list) outcome" where
  "prepareAll w inputPath outputPath =
     (if \<not> exists w inputPath then Throws (OpenError inputPath) w
      else
        let outputDirectory = (if outputPath = [] then inputPath else outputPath) in
        case (if \<not> exists w outputDirectory \<and> outputDirectory \<noteq> []
              then create_directories w outputDirectory else (True, w)) of
          (False, w1) \<Rightarrow> Throws (FilesystemError ''create_directories'') w1
        | (True, w1) \<Rightarrow>
            if \<not> is_directory w1 outputDirectory then Throws (OpenError outputPath) w1
            else (case loadOperations w1 inputPath of
                    Inl e \<Rightarrow> Throws e w1
                  | Inr operations \<Rightarrow> Returns (outputDirectory, operations) w1))"

text \<open>
  The call in the \<^verbatim>\<open>try\<close> block of \<^verbatim>\<open>encodeAll\<close>:
  \<^verbatim>\<open>encode(op.path, format, outputDirectory / getRelativePath(op.path, inputPath))\<close>.
\<close>

definition encodeOp :: "Header \<Rightarrow> (path \<Rightarrow> path \<Rightarrow> path) \<Rightarrow> path \<Rightarrow> AudioFormat \<Rightarrow> path \<Rightarrow>
    world \<Rightarrow> FileOperation \<Rightarrow> unit outcome" where
  "encodeOp h relative inputPath format outputDirectory w op =
     encode h w (path op) format
       (path_append outputDirectory (getRelativePath relative (path op) inputPath))"

definition encodeAll :: "Header \<Rightarrow> (path \<Rightarrow> path \<Rightarrow> path) \<Rightarrow> world \<Rightarrow> path \<Rightarrow> AudioFormat \<Rightarrow> path \<Rightarrow>
    FileOperation list outcome" where
  "encodeAll h relative w inputPath format outputPath =
     (case prepareAll w inputPath outputPath of
        Returns (outputDirectory, operations) w1 \<Rightarrow>
          forEach (\<lambda>i. encodeOp h relative inputPath format outputDirectory) 0 w1 operations
      | Throws e w1 \<Rightarrow> Throws e w1
      | Undefined \<Rightarrow> Undefined
      | Unfinished \<Rightarrow> Unfinished)"

text \<open>
  \<^verbatim>\<open>decodeAll\<close>, with the call in its \<^verbatim>\<open>try\<close> block:
  \<^verbatim>\<open>decode(op.path, outputDirectory / getRelativePath(op.path, inputPath))\<close>.
  The call of \<^verbatim>\<open>decode\<close> in the \<open>i\<close>-th iteration finds the characters
  \<open>stale i\<close> in its uninitialised array.
\<close>

definition decodeOp :: "Header \<Rightarrow> char list \<Rightarrow> (path \<Rightarrow> path \<Rightarrow> path) \<Rightarrow> path \<Rightarrow> path \<Rightarrow>
    world \<Rightarrow> FileOperation \<Rightarrow> unit outcome" where
  "decodeOp h stale relative inputPath outputDirectory w op =
     decode h stale w (path op)
       (path_append outputDirectory (getRelativePath relative (path op) inputPath))"

definition decodeAll :: "Header \<Rightarrow> (nat \<Rightarrow> char list) \<Rightarrow> (path \<Rightarrow> path \<Rightarrow> path) \<Rightarrow> world \<Rightarrow> path \<Rightarrow>
    path \<Rightarrow> FileOperation list outcome" where
  "decodeAll h stale relative w inputPath outputPath =
     (case prepareAll w inputPath outputPath of
        Returns (outputDirectory, operations) w1 \<Rightarrow>
          forEach (\<lambda>i. decodeOp h (stale i) relative inputPath outputDirectory) 0 w1 operations
      | Throws e w1 \<Rightarrow> Throws e w1
      | Undefined \<Rightarrow> Undefined
      | Unfinished \<Rightarrow> Unfinished)"

subsection \<open>The 2020 library\<close>

text \<open>
  \<^verbatim>\<open>encode\<close> of \<^verbatim>\<open>SithCodec.h\<close>. Its copy loop is
  \<^verbatim>\<open>while( input ) { input.read(&ch, 1); output.write(&ch, 1); }\<close>:
  the stream is tested before the read, and \<open>ch\<close> is written whether or not the read
  stored a character. \<open>ch\<close> is not initialised; the parameter is what it holds at first.
\<close>

definition TEMP :: string where
  "TEMP = ''.tmp''"

function copyLoop :: "istream \<Rightarrow> char \<Rightarrow> char list" where
  "copyLoop input ch =
     (if failbit input then []
      else case read input 1 of
             (got, input') \<Rightarrow>
               let ch' = (case got of [] \<Rightarrow> ch | c # cs \<Rightarrow> c)
               in ch' # copyLoop input' ch')"
  by pat_completeness auto
termination
  by (relation "measure (\<lambda>(s, ch). (length (content s) - gpos s) + (if failbit s then 0 else 1))")
    (auto simp: read_def good_def Let_def split: if_splits)

declare copyLoop.simps [simp del]

definition selectHeader :: "Header \<Rightarrow> AudioFormat \<Rightarrow> char list option \<times> nat" where
  "selectHeader h format =
     (case format of
        SFX \<Rightarrow> (Some (sfx h), sfxSize h)
      | VO \<Rightarrow> (Some (vo h), voSize h)
      | NONE \<Rightarrow> (None, 0))"

definition encode2020 :: "Header \<Rightarrow> char \<Rightarrow> world \<Rightarrow> string \<Rightarrow> AudioFormat \<Rightarrow> string \<Rightarrow> unit outcome" where
  "encode2020 h ch w inStr format outStr =
     (case readFile w inStr of
        None \<Rightarrow> Throws (OpenError inStr) w
      | Some opened \<Rightarrow>
          let fileExt = (if (outStr = [] \<or> is_directory w outStr) \<and> format = VO then wav
                         else if outStr \<noteq> [] \<and> inStr \<noteq> outStr then []
                         else TEMP);
              outPath = (if outStr = [] then inStr
                         else if is_directory w outStr then path_append outStr (filename inStr)
                         else outStr);
              outPath = (if fileExt \<noteq> [] then replace_extension outPath fileExt else outPath)
          in case createFile w outPath of
               None \<Rightarrow> Throws (WriteError outPath) w
             | Some w1 \<Rightarrow>
                 let (header, headerSize) = selectHeader h format;
                     input = openStream (case readFile w1 inStr of None \<Rightarrow> [] | Some bs \<Rightarrow> bs)
                 in case ostream_write header headerSize of
                      None \<Rightarrow> Undefined
                    | Some written \<Rightarrow>
                        let w2 = writeFile w1 outPath (written @ copyLoop input ch)
                        in if fileExt = TEMP then
                             (case remove_fs w2 inStr of
                                None \<Rightarrow> Throws (DeleteError inStr) w2
                              | Some w3 \<Rightarrow>
                                  (case rename w3 outPath inStr of
                                     None \<Rightarrow> Throws (DeleteError outPath) w3
                                   | Some w4 \<Rightarrow> Returns () w4))
                           else Returns () w2)"


subsection \<open>Example machines\<close>

text \<open>
  A small machine on which the properties are exercised: a temporary directory, an input
  file with a one-byte payload, a file to be overwritten, a file without a signature, a
  file that begins with the VO signature of \<open>testHeader\<close>, and a directory that is
  not empty. The random strings are \<open>T\<close>, \<open>Tx\<close>, \<open>Txx\<close>, ...
\<close>

definition tempNames :: "nat \<Rightarrow> string" where
  "tempNames i = CHR ''T'' # replicate i (CHR ''x'')"

definition exampleWorld :: world where
  "exampleWorld =
     \<lparr> nodes = [(''tmp'', Dir), (''a.dat'', File [CHR 0xAA]), (''old.dat'', File ''old''),
                (''plain.dat'', File ''abcde''), (''voice.wav'', File ([CHR 0xFF, CHR 0xFB] @ ''hi'')),
                (''dir'', Dir), (''dir/x'', File ''x'')],
       denied = [], tmpdir = ''tmp'', names = tempNames, drawn = 0 \<rparr>"

text \<open>
  A machine for batches: a directory with three files, the second of which the process
  may not open, and a list file with an empty line. \<open>lexicalRelative\<close> stands for
  \<^verbatim>\<open>std::filesystem::relative\<close> there: the part of the path after the directory,
  empty when the path is not beneath it.
\<close>

definition batchWorld :: world where
  "batchWorld =
     \<lparr> nodes = [(''tmp'', Dir), (''in'', Dir), (''in/1.wav'', File (''RIFF'' @ ''one'')),
                (''in/2.wav'', File (''RIFF'' @ ''two'')), (''in/3.wav'', File (''RIFF'' @ ''three'')),
                (''list.txt'', File (''in/1.wav'' @ [CHR 0x0A, CHR 0x0A] @ ''in/3.wav'' @ [CHR 0x0A]))],
       denied = [''in/2.wav''], tmpdir = ''tmp'', names = tempNames, drawn = 0 \<rparr>"

definition lexicalRelative :: "path \<Rightarrow> path \<Rightarrow> path" where
  "lexicalRelative p directory =
     (if strict_prefix (path_append directory []) p
      then drop (length (path_append directory [])) p else [])"

section \<open>Properties\<close>

subsection \<open>Streams and detection\<close>

lemmas stream_defs = tellg_def seekg_def read_def sentry_def good_def copyRest_def

lemma testHeader_simps:
  "sfx testHeader = [CHR 0x52, CHR 0x49, CHR 0x46, CHR 0x46]"
  "vo testHeader = [CHR 0xFF, CHR 0xFB]"
  "sfxSize testHeader = 4" "voSize testHeader = 2" "maxSize testHeader = 4"
  by (simp_all add: testHeader_def maxSize_def sfxSize_def voSize_def)

lemma sizes_le_max: "sfxSize h \<le> maxSize h" "voSize h \<le> maxSize h"
  by (simp_all add: maxSize_def)

lemma fillBuffer_full: "length got = n \<Longrightarrow> fillBuffer n stale got = got"
  by (simp add: fillBuffer_def)

lemma formatOf_good_long:
  assumes "good s" and "maxSize h \<le> length (content s)"
  shows "formatOf h stale s =
     (if sfxSize h \<noteq> 0 \<and> take (sfxSize h) (content s) = sfx h then SFX
      else if voSize h \<noteq> 0 \<and> take (voSize h) (content s) = vo h then VO
      else NONE, s)"
proof -
  have t: "tellg s = (int (gpos s), s)"
    using assms(1) by (simp add: stream_defs)
  have k: "seekg s 0 = s\<lparr> gpos := 0 \<rparr>"
    using assms(1) by (simp add: stream_defs)
  have r: "read (s\<lparr> gpos := 0 \<rparr>) (maxSize h) = (take (maxSize h) (content s), s\<lparr> gpos := maxSize h \<rparr>)"
    using assms by (simp add: stream_defs Let_def)
  have b: "seekg (s\<lparr> gpos := maxSize h \<rparr>) (int (gpos s)) = s"
    using assms(1) by (simp add: stream_defs)
  have f: "fillBuffer (maxSize h) stale (take (maxSize h) (content s)) = take (maxSize h) (content s)"
    using assms(2) by (simp add: fillBuffer_full)
  have m1: "min (sfxSize h) (maxSize h) = sfxSize h"
    by (simp add: maxSize_def)
  have m2: "min (voSize h) (maxSize h) = voSize h"
    by (simp add: maxSize_def)
  show ?thesis
    by (simp add: formatOf_def t k r b f m1 m2)
qed

lemma formatOf_fresh_short:
  assumes "length bytes < maxSize h"
  shows "snd (formatOf h stale (openStream bytes)) =
     \<lparr> content = bytes, gpos = length bytes, failbit = True, eofbit = False \<rparr>"
  using assms by (simp add: formatOf_def stream_defs openStream_def Let_def)

lemma skipHeader_failed: "failbit s \<Longrightarrow> \<not> eofbit s \<Longrightarrow> skipHeader h s format = s"
  by (cases format) (simp_all add: stream_defs)

lemma decodeStream_short:
  assumes "length bytes < maxSize h"
  shows "snd (decodeStream h stale bytes) = []"
proof -
  obtain format s1 where f: "formatOf h stale (openStream bytes) = (format, s1)"
    by (cases "formatOf h stale (openStream bytes)")
  with formatOf_fresh_short [OF assms, of stale]
  have s1: "s1 = \<lparr> content = bytes, gpos = length bytes, failbit = True, eofbit = False \<rparr>"
    by simp
  then have "skipHeader h s1 format = s1"
    by (simp add: skipHeader_failed)
  with f s1 show ?thesis
    by (simp add: decodeStream_def copyRest_def)
qed


lemma formatOf_fresh_fst:
  "fst (formatOf h stale (openStream bytes)) =
     (let header = fillBuffer (maxSize h) stale (take (maxSize h) bytes)
      in if sfxSize h \<noteq> 0 \<and> take (sfxSize h) header = sfx h then SFX
         else if voSize h \<noteq> 0 \<and> take (voSize h) header = vo h then VO
         else NONE)"
  by (simp add: formatOf_def stream_defs openStream_def Let_def)

lemma fillBuffer_take_sig:
  assumes "take (length sig) (fillBuffer n stale got) = sig"
  shows "prefix sig got \<or> prefix got sig"
proof -
  have "prefix (take (length sig) (fillBuffer n stale got)) (got @ drop (length got) stale)"
    unfolding fillBuffer_def take_take by (rule take_is_prefix)
  with assms have "prefix sig (got @ drop (length got) stale)"
    by simp
  then show ?thesis
    by (auto simp: prefix_append)
qed

lemma prefix_take_cases:
  assumes "prefix sig (take n bytes) \<or> prefix (take n bytes) sig" and "length sig \<le> n"
  shows "prefix sig bytes \<or> prefix bytes sig"
proof (cases "n \<le> length bytes")
  case False
  with assms(1) show ?thesis by simp
next
  case True
  from assms(1) show ?thesis
  proof
    assume "prefix sig (take n bytes)"
    then have "prefix sig bytes"
      using take_is_prefix [of n bytes] by (rule prefix_order.trans)
    then show ?thesis ..
  next
    assume p: "prefix (take n bytes) sig"
    then have "length (take n bytes) \<le> length sig"
      by (rule prefix_length_le)
    with True assms(2) have "length (take n bytes) = length sig"
      by simp
    moreover from p obtain zs where "sig = take n bytes @ zs"
      by (auto elim: prefixE)
    ultimately have "take n bytes = sig"
      by (cases zs) simp_all
    then have "prefix sig bytes"
      using take_is_prefix [of n bytes] by simp
    then show ?thesis ..
  qed
qed

text \<open>
  Where the array plays no part: a file that neither begins with a signature nor is the
  beginning of one is \<open>NONE\<close>, whatever the array holds.
\<close>

lemma formatOf_unrelated:
  assumes "\<not> prefix (sfx h) bytes" and "\<not> prefix bytes (sfx h)"
      and "\<not> prefix (vo h) bytes" and "\<not> prefix bytes (vo h)"
  shows "fst (formatOf h stale (openStream bytes)) = NONE"
proof -
  define header where "header = fillBuffer (maxSize h) stale (take (maxSize h) bytes)"
  have "take (sfxSize h) header \<noteq> sfx h"
  proof
    assume "take (sfxSize h) header = sfx h"
    then have "prefix (sfx h) (take (maxSize h) bytes) \<or> prefix (take (maxSize h) bytes) (sfx h)"
      unfolding header_def sfxSize_def by (rule fillBuffer_take_sig)
    then have "prefix (sfx h) bytes \<or> prefix bytes (sfx h)"
      by (rule prefix_take_cases) (simp add: maxSize_def sfxSize_def)
    with assms show False by simp
  qed
  moreover have "take (voSize h) header \<noteq> vo h"
  proof
    assume "take (voSize h) header = vo h"
    then have "prefix (vo h) (take (maxSize h) bytes) \<or> prefix (take (maxSize h) bytes) (vo h)"
      unfolding header_def voSize_def by (rule fillBuffer_take_sig)
    then have "prefix (vo h) bytes \<or> prefix bytes (vo h)"
      by (rule prefix_take_cases) (simp add: maxSize_def voSize_def)
    with assms show False by simp
  qed
  ultimately show ?thesis
    by (simp add: formatOf_fresh_fst header_def)
qed

text \<open>
  The characters that \<^verbatim>\<open>formatOf\<close> compares with a signature of length \<open>n\<close>, for a
  file just opened: the file's own characters, and, when the file has fewer than \<open>n\<close>,
  what the array held after them.
\<close>

lemma buffer_take:
  assumes "n \<le> m"
  shows "take n (fillBuffer m stale (take m bytes)) = take n (bytes @ drop (length bytes) stale)"
proof (cases "m \<le> length bytes")
  case True
  with assms show ?thesis
    by (simp add: fillBuffer_def min_absorb1 min_absorb2)
next
  case False
  then have "take m bytes = bytes"
    by simp
  with assms show ?thesis
    by (simp add: fillBuffer_def min_absorb1)
qed

lemma formatOf_fresh_buffer:
  "fst (formatOf h stale (openStream bytes)) =
     (if sfxSize h \<noteq> 0 \<and> take (sfxSize h) (bytes @ drop (length bytes) stale) = sfx h then SFX
      else if voSize h \<noteq> 0 \<and> take (voSize h) (bytes @ drop (length bytes) stale) = vo h then VO
      else NONE)"
  by (simp add: formatOf_fresh_fst Let_def buffer_take sizes_le_max)

text \<open>
  By design, a file that begins with a whole signature has that signature's format (SFX
  first), also when the file is shorter than the largest signature.
\<close>

lemma formatOf_whole_signature:
  "prefix (sfx h) bytes \<Longrightarrow> sfx h \<noteq> [] \<Longrightarrow> fst (formatOf h stale (openStream bytes)) = SFX"
  "prefix (vo h) bytes \<Longrightarrow> vo h \<noteq> [] \<Longrightarrow> fst (formatOf h stale (openStream bytes)) \<noteq> NONE"
proof -
  have t: "take (length sig) (bytes @ r) = sig" if "prefix sig bytes" for sig r :: "char list"
    using that by (auto elim!: prefixE)
  show "fst (formatOf h stale (openStream bytes)) = SFX" if "prefix (sfx h) bytes" "sfx h \<noteq> []"
    using that t [of "sfx h"] by (simp add: formatOf_fresh_buffer sfxSize_def)
  show "fst (formatOf h stale (openStream bytes)) \<noteq> NONE" if "prefix (vo h) bytes" "vo h \<noteq> []"
    using that t [of "vo h"] by (simp add: formatOf_fresh_buffer voSize_def)
qed

lemma partial_signature:
  assumes "strict_prefix bytes sig" and "prefix sig stale"
  shows "take (length sig) (bytes @ drop (length bytes) stale) = sig" and "sig \<noteq> []"
    and "length bytes < length sig"
proof -
  from assms(1) obtain z where sig: "sig = bytes @ z" and z: "z \<noteq> []"
    by (auto simp: strict_prefix_def elim!: prefixE)
  from assms(2) obtain r where "stale = sig @ r"
    by (auto elim!: prefixE)
  with sig have "bytes @ drop (length bytes) stale = sig @ r"
    by simp
  then show "take (length sig) (bytes @ drop (length bytes) stale) = sig"
    by simp
  from sig z show "sig \<noteq> []" "length bytes < length sig"
    by simp_all
qed

text \<open>
  Claim C3, where the code departs from it. \<^verbatim>\<open>formatOf\<close> compares the whole array
  with each signature, whatever number of characters \<^verbatim>\<open>read\<close> has stored in it. A
  file that is only the beginning of a signature, the empty file included, and so is
  shorter than the largest signature, is detected as that signature's format when the
  array already holds the signature, as it does after the detection of such a file: the
  answer is not \<open>NONE\<close>.
\<close>

theorem formatOf_partial_signature:
  "(strict_prefix bytes (sfx h) \<and> prefix (sfx h) stale
      \<longrightarrow> length bytes < maxSize h \<and> fst (formatOf h stale (openStream bytes)) = SFX)
   \<and> (strict_prefix bytes (vo h) \<and> prefix (vo h) stale
      \<longrightarrow> length bytes < maxSize h \<and> fst (formatOf h stale (openStream bytes)) \<noteq> NONE)"
proof -
  have "length bytes < maxSize h \<and> fst (formatOf h stale (openStream bytes)) = SFX"
    if "strict_prefix bytes (sfx h) \<and> prefix (sfx h) stale"
  proof -
    from that have a: "strict_prefix bytes (sfx h)" and b: "prefix (sfx h) stale"
      by simp_all
    from partial_signature(3) [OF a b] sizes_le_max(1) [of h] have "length bytes < maxSize h"
      by (simp add: sfxSize_def)
    with partial_signature(1,2) [OF a b] show ?thesis
      by (simp add: formatOf_fresh_buffer sfxSize_def)
  qed
  moreover have "length bytes < maxSize h \<and> fst (formatOf h stale (openStream bytes)) \<noteq> NONE"
    if "strict_prefix bytes (vo h) \<and> prefix (vo h) stale"
  proof -
    from that have a: "strict_prefix bytes (vo h)" and b: "prefix (vo h) stale"
      by simp_all
    from partial_signature(3) [OF a b] sizes_le_max(2) [of h] have "length bytes < maxSize h"
      by (simp add: voSize_def)
    with partial_signature(1,2) [OF a b] show ?thesis
      by (simp add: formatOf_fresh_buffer voSize_def)
  qed
  ultimately show ?thesis
    by blast
qed

text \<open>
  Witness for C3, under the signatures of the spec's scenario: the one-byte file \<open>FF\<close> is
  the beginning of the VO signature \<open>FF FB\<close>. With the array holding \<open>FF FB 68 69\<close>
  (the first bytes of a VO file detected before) it is detected as VO, and with the array
  holding \<open>zzzz\<close> as \<open>NONE\<close>; so is the empty file.
\<close>

theorem formatOf_partial_signature_witness:
  "strict_prefix [CHR 0xFF] (vo testHeader)
   \<and> prefix (vo testHeader) [CHR 0xFF, CHR 0xFB, CHR 0x68, CHR 0x69]
   \<and> length [CHR 0xFF] < maxSize testHeader
   \<and> fst (formatOf testHeader [CHR 0xFF, CHR 0xFB, CHR 0x68, CHR 0x69] (openStream [CHR 0xFF])) = VO
   \<and> fst (formatOf testHeader ''zzzz'' (openStream [CHR 0xFF])) = NONE
   \<and> fst (formatOf testHeader [CHR 0xFF, CHR 0xFB, CHR 0x68, CHR 0x69] (openStream [])) = VO
   \<and> fst (formatOf testHeader ''zzzz'' (openStream [])) = NONE"
proof -
  have 1: "strict_prefix [CHR 0xFF] (vo testHeader)"
    by (simp add: testHeader_simps)
  have 2: "prefix (vo testHeader) [CHR 0xFF, CHR 0xFB, CHR 0x68, CHR 0x69]"
    by (simp add: testHeader_simps)
  from formatOf_partial_signature [of "[CHR 0xFF]" testHeader
      "[CHR 0xFF, CHR 0xFB, CHR 0x68, CHR 0x69]"] 1 2
  have 3: "length [CHR 0xFF] < maxSize testHeader"
    and 4: "fst (formatOf testHeader [CHR 0xFF, CHR 0xFB, CHR 0x68, CHR 0x69]
        (openStream [CHR 0xFF])) \<noteq> NONE"
    by blast+
  have 5: "fst (formatOf testHeader [CHR 0xFF, CHR 0xFB, CHR 0x68, CHR 0x69]
      (openStream [CHR 0xFF])) \<noteq> SFX"
    by (simp add: formatOf_fresh_fst fillBuffer_def testHeader_simps)
  from 4 5 have 6: "fst (formatOf testHeader [CHR 0xFF, CHR 0xFB, CHR 0x68, CHR 0x69]
      (openStream [CHR 0xFF])) = VO"
    by (cases "fst (formatOf testHeader [CHR 0xFF, CHR 0xFB, CHR 0x68, CHR 0x69]
      (openStream [CHR 0xFF]))") simp_all
  have 7: "fst (formatOf testHeader ''zzzz'' (openStream [CHR 0xFF])) = NONE"
    "fst (formatOf testHeader [CHR 0xFF, CHR 0xFB, CHR 0x68, CHR 0x69] (openStream [])) = VO"
    "fst (formatOf testHeader ''zzzz'' (openStream [])) = NONE"
    by (simp_all add: formatOf_fresh_fst fillBuffer_def testHeader_simps)
  from 1 2 3 6 7 show ?thesis
    by simp
qed

text \<open>
  By design, \<^verbatim>\<open>formatOf\<close> seeks to offset 0 before it reads: on a good stream the
  format is that of the file from its beginning, wherever the stream was positioned.
\<close>

lemma formatOf_from_start:
  assumes "good s"
  shows "fst (formatOf h stale s) = fst (formatOf h stale (openStream (content s)))"
  using assms by (simp add: formatOf_def stream_defs openStream_def Let_def)

text \<open>
  On a good stream that holds at least \<open>maxSize\<close> bytes, the stream is after
  \<^verbatim>\<open>formatOf\<close> exactly as before (position and state), the format is the one of the
  first \<open>maxSize\<close> bytes of the file, whatever the position and the array were, and a
  second call returns the same.
\<close>

lemma formatOf_long_stream:
  assumes "good s" and "maxSize h \<le> length (content s)"
  shows "snd (formatOf h stale s) = s
       \<and> fst (formatOf h stale s) =
           fst (formatOf h stale' (openStream (take (maxSize h) (content s))))
       \<and> formatOf h stale' (snd (formatOf h stale s)) = formatOf h stale s"
proof -
  have g: "good (openStream (take (maxSize h) (content s)))"
    by (simp add: good_def openStream_def)
  have l: "maxSize h \<le> length (content (openStream (take (maxSize h) (content s))))"
    using assms(2) by (simp add: openStream_def)
  have m1: "min (sfxSize h) (maxSize h) = sfxSize h"
    by (simp add: maxSize_def)
  have m2: "min (voSize h) (maxSize h) = voSize h"
    by (simp add: maxSize_def)
  have c: "content (openStream (take (maxSize h) (content s))) = take (maxSize h) (content s)"
    by (simp add: openStream_def)
  have r: "fst (formatOf h stale' (openStream (take (maxSize h) (content s)))) =
     (if sfxSize h \<noteq> 0 \<and> take (sfxSize h) (content s) = sfx h then SFX
      else if voSize h \<noteq> 0 \<and> take (voSize h) (content s) = vo h then VO
      else NONE)"
    unfolding formatOf_good_long [OF g l] c by (simp add: m1 m2)
  have a: "formatOf h stale s =
     (if sfxSize h \<noteq> 0 \<and> take (sfxSize h) (content s) = sfx h then SFX
      else if voSize h \<noteq> 0 \<and> take (voSize h) (content s) = vo h then VO
      else NONE, s)"
    by (rule formatOf_good_long [OF assms])
  have b: "formatOf h stale' s = formatOf h stale s"
    unfolding formatOf_good_long [OF assms] by (rule refl)
  show ?thesis
    unfolding r unfolding a by (simp add: b [unfolded a])
qed

lemma formatOf_short_snd:
  assumes "good s" and "length (content s) < maxSize h"
  shows "snd (formatOf h stale s) = s\<lparr> gpos := length (content s), failbit := True \<rparr>"
  using assms by (simp add: formatOf_def stream_defs Let_def)

lemma formatOf_failed:
  assumes "failbit s"
  shows "fst (formatOf h stale s) = fst (formatOf h stale (openStream []))"
  using assms by (simp add: formatOf_def stream_defs openStream_def Let_def fillBuffer_def)

text \<open>
  Claim C8, where the code departs from it. On a good stream whose file is shorter than
  \<open>maxSize\<close>, the \<^verbatim>\<open>read\<close> of \<^verbatim>\<open>formatOf\<close> meets the end of the file and sets
  \<open>failbit\<close>, so that \<^verbatim>\<open>file.seekg(pos, ios::beg)\<close> does nothing: the stream is
  left failed with its buffer at the end of the file, \<^verbatim>\<open>tellg\<close> answers the position
  before the call and \<open>-1\<close> after it, and a second call reads nothing and answers what
  it answers for an empty file, whatever the file holds.
\<close>

theorem formatOf_short_stream:
  assumes "good s" and "length (content s) < maxSize h"
  shows "fst (tellg s) = int (gpos s)
       \<and> fst (tellg (snd (formatOf h stale s))) = - 1
       \<and> snd (formatOf h stale s) = s\<lparr> gpos := length (content s), failbit := True \<rparr>
       \<and> fst (formatOf h stale' (snd (formatOf h stale s)))
           = fst (formatOf h stale' (openStream []))"
proof -
  note e = formatOf_short_snd [OF assms, of stale]
  have "fst (tellg s) = int (gpos s)"
    using assms(1) by (simp add: stream_defs)
  moreover have "fst (tellg (snd (formatOf h stale s))) = - 1"
    unfolding e by (simp add: stream_defs)
  moreover have "fst (formatOf h stale' (snd (formatOf h stale s)))
      = fst (formatOf h stale' (openStream []))"
    unfolding e by (rule formatOf_failed) simp
  ultimately show ?thesis
    using e by simp
qed

text \<open>
  Witness for C8, under the signatures of the spec's scenario (\<open>maxSize\<close> is 4): the
  three-byte file \<open>FF FB 01\<close>, just opened. The position is 0 before the call and
  \<open>-1\<close> after it; the first call answers VO and the second, with \<open>zzzz\<close> in its
  array, \<open>NONE\<close>.
\<close>

theorem formatOf_short_stream_witness:
  "good (openStream [CHR 0xFF, CHR 0xFB, CHR 0x01])
   \<and> length (content (openStream [CHR 0xFF, CHR 0xFB, CHR 0x01])) < maxSize testHeader
   \<and> fst (tellg (openStream [CHR 0xFF, CHR 0xFB, CHR 0x01])) = 0
   \<and> fst (tellg (snd (formatOf testHeader ''zzzz'' (openStream [CHR 0xFF, CHR 0xFB, CHR 0x01]))))
       = - 1
   \<and> fst (formatOf testHeader ''zzzz'' (openStream [CHR 0xFF, CHR 0xFB, CHR 0x01])) = VO
   \<and> fst (formatOf testHeader ''zzzz''
        (snd (formatOf testHeader ''zzzz'' (openStream [CHR 0xFF, CHR 0xFB, CHR 0x01])))) = NONE"
proof -
  let ?s = "openStream [CHR 0xFF, CHR 0xFB, CHR 0x01]"
  have g: "good ?s"
    by (simp add: good_def openStream_def)
  have l: "length (content ?s) < maxSize testHeader"
    by (simp add: openStream_def testHeader_simps)
  have p: "int (gpos ?s) = 0"
    by (simp add: openStream_def)
  have f: "fst (formatOf testHeader ''zzzz'' ?s) = VO"
    "fst (formatOf testHeader ''zzzz'' (openStream [])) = NONE"
    by (simp_all add: formatOf_fresh_fst fillBuffer_def testHeader_simps)
  note t = formatOf_short_stream [OF g l, of "''zzzz''" "''zzzz''"]
  from t p have a: "fst (tellg ?s) = 0"
    by (simp only:)
  from t have b: "fst (tellg (snd (formatOf testHeader ''zzzz'' ?s))) = - 1"
    by (rule conjunct1 [OF conjunct2])
  from t have "fst (formatOf testHeader ''zzzz'' (snd (formatOf testHeader ''zzzz'' ?s)))
      = fst (formatOf testHeader ''zzzz'' (openStream []))"
    by (rule conjunct2 [OF conjunct2 [OF conjunct2]])
  with f(2) have c: "fst (formatOf testHeader ''zzzz'' (snd (formatOf testHeader ''zzzz'' ?s)))
      = NONE"
    by (simp only:)
  from g l a b f(1) c show ?thesis
    by blast
qed

text \<open>
  The offset: a stream positioned at offset 2, where the SFX signature begins, is detected
  as \<open>NONE\<close>, because the bytes are read from offset 0.
\<close>

lemma formatOf_offset_example:
  "fst (formatOf testHeader ''zzzz'' ((openStream ''xxRIFFyy'')\<lparr> gpos := 2 \<rparr>)) = NONE
   \<and> fst (formatOf testHeader ''zzzz'' (openStream (drop 2 ''xxRIFFyy''))) = SFX"
proof -
  have g: "good ((openStream ''xxRIFFyy'')\<lparr> gpos := 2 \<rparr>)"
    by (simp add: good_def openStream_def)
  have l: "maxSize testHeader \<le> length (content ((openStream ''xxRIFFyy'')\<lparr> gpos := 2 \<rparr>))"
    by (simp add: openStream_def testHeader_simps)
  have 3: "fst (formatOf testHeader ''zzzz'' ((openStream ''xxRIFFyy'')\<lparr> gpos := 2 \<rparr>)) = NONE"
    unfolding formatOf_good_long [OF g l] by (simp add: testHeader_simps openStream_def)
  have 4: "fst (formatOf testHeader ''zzzz'' (openStream (drop 2 ''xxRIFFyy''))) = SFX"
    by (simp add: formatOf_fresh_fst fillBuffer_def testHeader_simps)
  from 3 4 show ?thesis
    by simp
qed

subsection \<open>The file system\<close>

lemma lookup_store: "lookup (store w p n) q = (if q = p then Some n else lookup w q)"
  by (simp add: lookup_def store_def update_conv')

lemma lookup_delete:
  "lookup (w\<lparr> nodes := AList.delete p (nodes w) \<rparr>) q = (if q = p then None else lookup w q)"
  by (simp add: lookup_def delete_conv')

lemma store_frame:
  "denied (store w p n) = denied w" "tmpdir (store w p n) = tmpdir w"
  "names (store w p n) = names w" "drawn (store w p n) = drawn w"
  by (simp_all add: store_def)

lemma mkdir_lookup:
  assumes "mkdir w p = (b, w')" and "lookup w q = Some n"
  shows "lookup w' q = Some n"
  using assms by (auto simp: mkdir_def exists_def lookup_store split: if_splits)

lemma mkdir_frame:
  assumes "mkdir w p = (b, w')"
  shows "denied w' = denied w \<and> tmpdir w' = tmpdir w \<and> names w' = names w \<and> drawn w' = drawn w"
  using assms by (auto simp: mkdir_def store_frame split: if_splits)

lemma create_directories_lookup:
  "create_directories w p = (b, w') \<Longrightarrow> lookup w q = Some n \<Longrightarrow> lookup w' q = Some n"
proof (induction w p arbitrary: b w' rule: create_directories.induct)
  case (1 w p)
  show ?case
  proof (cases "is_directory w p \<or> exists w p \<or> p = []")
    case True
    with "1.prems" show ?thesis
      by (subst (asm) create_directories.simps) (auto split: if_splits)
  next
    case stop: False
    show ?thesis
    proof (cases "parent_path p = [] \<or> parent_path p = p")
      case True
      with stop "1.prems"(1) have "mkdir w p = (b, w')"
        by (subst (asm) create_directories.simps) (simp split: if_splits)
      then show ?thesis
        using "1.prems"(2) by (rule mkdir_lookup)
    next
      case False
      obtain b1 w1 where r: "create_directories w (parent_path p) = (b1, w1)"
        by (cases "create_directories w (parent_path p)")
      from stop False have c1: "\<not> is_directory w p" and c2: "\<not> (exists w p \<or> p = [])"
        and c3: "\<not> (parent_path p = [] \<or> parent_path p = p)"
        by simp_all
      have l1: "lookup w1 q = Some n"
        using "1.IH" [OF c1 c2 c3 r "1.prems"(2)] .
      show ?thesis
      proof (cases b1)
        case True
        with stop False r "1.prems"(1) have "mkdir w1 p = (b, w')"
          by (subst (asm) create_directories.simps) (simp split: if_splits)
        then show ?thesis
          using l1 by (rule mkdir_lookup)
      next
        case b1: False
        with stop False r "1.prems"(1) have "w' = w1"
          by (subst (asm) create_directories.simps) (simp split: if_splits)
        with l1 show ?thesis by simp
      qed
    qed
  qed
qed

lemma create_directories_frame:
  "create_directories w p = (b, w') \<Longrightarrow>
     denied w' = denied w \<and> tmpdir w' = tmpdir w \<and> names w' = names w \<and> drawn w' = drawn w"
proof (induction w p arbitrary: b w' rule: create_directories.induct)
  case (1 w p)
  show ?case
  proof (cases "is_directory w p \<or> exists w p \<or> p = []")
    case True
    with "1.prems" show ?thesis
      by (subst (asm) create_directories.simps) (auto split: if_splits)
  next
    case stop: False
    show ?thesis
    proof (cases "parent_path p = [] \<or> parent_path p = p")
      case True
      with stop "1.prems"(1) have "mkdir w p = (b, w')"
        by (subst (asm) create_directories.simps) (simp split: if_splits)
      then show ?thesis
        by (rule mkdir_frame)
    next
      case False
      obtain b1 w1 where r: "create_directories w (parent_path p) = (b1, w1)"
        by (cases "create_directories w (parent_path p)")
      from stop False have c1: "\<not> is_directory w p" and c2: "\<not> (exists w p \<or> p = [])"
        and c3: "\<not> (parent_path p = [] \<or> parent_path p = p)"
        by simp_all
      have f1: "denied w1 = denied w \<and> tmpdir w1 = tmpdir w \<and> names w1 = names w \<and> drawn w1 = drawn w"
        using "1.IH" [OF c1 c2 c3 r] .
      show ?thesis
      proof (cases b1)
        case True
        with stop False r "1.prems"(1) have "mkdir w1 p = (b, w')"
          by (subst (asm) create_directories.simps) (simp split: if_splits)
        then have "denied w' = denied w1 \<and> tmpdir w' = tmpdir w1 \<and> names w' = names w1 \<and> drawn w' = drawn w1"
          by (rule mkdir_frame)
        with f1 show ?thesis by simp
      next
        case b1: False
        with stop False r "1.prems"(1) have "w' = w1"
          by (subst (asm) create_directories.simps) (simp split: if_splits)
        with f1 show ?thesis by simp
      qed
    qed
  qed
qed

lemma remove_fs_Some:
  assumes "remove_fs w p = Some w'"
  shows "lookup w' q = (if q = p then None else lookup w q)"
    and "denied w' = denied w" and "tmpdir w' = tmpdir w"
    and "names w' = names w" and "drawn w' = drawn w"
  using assms by (auto simp: remove_fs_def lookup_delete split: option.splits if_splits)

lemma rename_cases:
  assumes "rename w old new = Some w'"
  obtains bs where "lookup w old = Some (File bs)" and "old = new" and "w' = w"
  | bs where "lookup w old = Some (File bs)" and "old \<noteq> new" and "\<not> is_directory w new"
      and "parent_path new = [] \<or> is_directory w (parent_path new)"
      and "w' = w\<lparr> nodes := AList.update new (File bs) (AList.delete old (nodes w)) \<rparr>"
proof (cases "lookup w old")
  case None
  with assms show ?thesis by (simp add: rename_def)
next
  case (Some n)
  show ?thesis
  proof (cases n)
    case Dir
    with Some assms show ?thesis by (simp add: rename_def)
  next
    case (File bs)
    show ?thesis
    proof (cases "old = new")
      case True
      with Some File assms have "w' = w" by (simp add: rename_def)
      with Some File True that(1) show ?thesis by simp
    next
      case False
      with Some File assms have
        c: "\<not> (is_directory w new \<or> (parent_path new \<noteq> [] \<and> \<not> is_directory w (parent_path new)))"
        by (simp add: rename_def split: if_splits)
      with False Some File assms have
        "w' = w\<lparr> nodes := AList.update new (File bs) (AList.delete old (nodes w)) \<rparr>"
        by (simp add: rename_def)
      with Some File False c that(2) show ?thesis by blast
    qed
  qed
qed

lemma lookup_renamed:
  "lookup (w\<lparr> nodes := AList.update new n (AList.delete old (nodes w)) \<rparr>) q =
     (if q = new then Some n else if q = old then None else lookup w q)"
  by (simp add: lookup_def update_conv' delete_conv')

lemma rename_Some:
  assumes "rename w old new = Some w'"
  shows "\<exists>bs. lookup w old = Some (File bs) \<and> lookup w' new = Some (File bs)"
    and "q \<noteq> old \<Longrightarrow> q \<noteq> new \<Longrightarrow> lookup w' q = lookup w q"
    and "old \<noteq> new \<Longrightarrow> lookup w' old = None"
    and "denied w' = denied w" and "tmpdir w' = tmpdir w"
    and "names w' = names w" and "drawn w' = drawn w"
proof -
  show "\<exists>bs. lookup w old = Some (File bs) \<and> lookup w' new = Some (File bs)"
    using assms by (rule rename_cases) (simp_all add: lookup_renamed)
  show "q \<noteq> old \<Longrightarrow> q \<noteq> new \<Longrightarrow> lookup w' q = lookup w q"
    using assms by (rule rename_cases) (simp_all add: lookup_renamed)
  show "old \<noteq> new \<Longrightarrow> lookup w' old = None"
    using assms by (rule rename_cases) (simp_all add: lookup_renamed)
  show "denied w' = denied w"
    using assms by (rule rename_cases) simp_all
  show "tmpdir w' = tmpdir w"
    using assms by (rule rename_cases) simp_all
  show "names w' = names w"
    using assms by (rule rename_cases) simp_all
  show "drawn w' = drawn w"
    using assms by (rule rename_cases) simp_all
qed

lemma rename_parent:
  assumes "rename w old new = Some w'" and "old \<noteq> new" and "parent_path new \<noteq> []"
  shows "is_directory w' (parent_path new)"
  using assms(1)
proof (rule rename_cases)
  fix bs
  assume "lookup w old = Some (File bs)" and "old = new"
  with assms(2) show ?thesis by simp
next
  fix bs
  assume o: "lookup w old = Some (File bs)" and nd: "\<not> is_directory w new"
    and d: "parent_path new = [] \<or> is_directory w (parent_path new)"
    and w': "w' = w\<lparr> nodes := AList.update new (File bs) (AList.delete old (nodes w)) \<rparr>"
  from d assms(3) have d': "lookup w (parent_path new) = Some Dir"
    by (simp add: is_directory_def)
  with o have "parent_path new \<noteq> old" by auto
  moreover from d' nd have "parent_path new \<noteq> new" by (auto simp: is_directory_def)
  ultimately show ?thesis
    using d' by (simp add: w' is_directory_def lookup_renamed)
qed

text \<open>What a successful end of a transform leaves behind.\<close>

lemma finishOutput_cases:
  assumes "finishOutput w tempPath outputPath ext = Returns () w'"
  obtains w1 where "exists w outputPath" and "remove_fs w outputPath = Some w1"
      and "rename w1 tempPath (replace_extension outputPath ext) = Some w'"
  | w1 where "\<not> exists w outputPath" and "parent_path outputPath \<noteq> []"
      and "create_directories w (parent_path outputPath) = (True, w1)"
      and "rename w1 tempPath (replace_extension outputPath ext) = Some w'"
  | "\<not> exists w outputPath" and "parent_path outputPath = []"
      and "rename w tempPath (replace_extension outputPath ext) = Some w'"
proof (cases "exists w outputPath")
  case True
  with assms obtain w1 where "remove_fs w outputPath = Some w1"
    by (cases "remove_fs w outputPath") (simp_all add: finishOutput_def)
  moreover from this True assms
  have "rename w1 tempPath (replace_extension outputPath ext) = Some w'"
    by (cases "rename w1 tempPath (replace_extension outputPath ext)")
      (simp_all add: finishOutput_def)
  ultimately show ?thesis
    using True that(1) by blast
next
  case ne: False
  show ?thesis
  proof (cases "parent_path outputPath = []")
    case True
    with ne assms have "rename w tempPath (replace_extension outputPath ext) = Some w'"
      by (cases "rename w tempPath (replace_extension outputPath ext)")
        (simp_all add: finishOutput_def)
    with ne True that(3) show ?thesis by blast
  next
    case False
    obtain b w1 where cd: "create_directories w (parent_path outputPath) = (b, w1)"
      by (cases "create_directories w (parent_path outputPath)")
    with ne False assms have b: "b"
      by (cases b) (simp_all add: finishOutput_def)
    from b cd ne False assms have "rename w1 tempPath (replace_extension outputPath ext) = Some w'"
      by (cases "rename w1 tempPath (replace_extension outputPath ext)")
        (simp_all add: finishOutput_def)
    moreover from cd b have "create_directories w (parent_path outputPath) = (True, w1)"
      by simp
    ultimately show ?thesis
      using ne False that(2) by blast
  qed
qed

lemma finishOutput_Returns:
  assumes r: "finishOutput w tempPath outputPath ext = Returns () w'"
      and t: "lookup w tempPath = Some (File bs)"
  shows "lookup w' (replace_extension outputPath ext) = Some (File bs)"
    and "exists w outputPath \<Longrightarrow> replace_extension outputPath ext \<noteq> outputPath \<Longrightarrow>
           \<not> exists w' outputPath"
    and "q \<noteq> tempPath \<Longrightarrow> q \<noteq> outputPath \<Longrightarrow> q \<noteq> replace_extension outputPath ext \<Longrightarrow>
           lookup w q = Some n \<Longrightarrow> lookup w' q = Some n"
proof -
  let ?target = "replace_extension outputPath ext"
  have "lookup w' ?target = Some (File bs)
      \<and> (exists w outputPath \<longrightarrow> ?target \<noteq> outputPath \<longrightarrow> \<not> exists w' outputPath)
      \<and> (q \<noteq> tempPath \<longrightarrow> q \<noteq> outputPath \<longrightarrow> q \<noteq> ?target \<longrightarrow> lookup w q = Some n \<longrightarrow>
           lookup w' q = Some n)"
    using r
  proof (rule finishOutput_cases)
    fix w1
    assume ex: "exists w outputPath" and rm: "remove_fs w outputPath = Some w1"
      and rn: "rename w1 tempPath ?target = Some w'"
    from rename_Some(1) [OF rn] obtain bs' where
      o: "lookup w1 tempPath = Some (File bs')" and n: "lookup w' ?target = Some (File bs')"
      by blast
    have l1: "\<And>x. lookup w1 x = (if x = outputPath then None else lookup w x)"
      by (rule remove_fs_Some(1) [OF rm])
    from o l1 [of tempPath] have ne: "tempPath \<noteq> outputPath"
      by (auto split: if_splits)
    with o l1 [of tempPath] t have "bs' = bs"
      by simp
    moreover have "?target \<noteq> outputPath \<longrightarrow> \<not> exists w' outputPath"
    proof
      assume "?target \<noteq> outputPath"
      with ne have "lookup w' outputPath = lookup w1 outputPath"
        using rename_Some(2) [OF rn, of outputPath] by simp
      with l1 [of outputPath] show "\<not> exists w' outputPath"
        by (simp add: exists_def)
    qed
    moreover have "q \<noteq> tempPath \<longrightarrow> q \<noteq> outputPath \<longrightarrow> q \<noteq> ?target \<longrightarrow> lookup w q = Some n \<longrightarrow>
           lookup w' q = Some n"
      using rename_Some(2) [OF rn, of q] l1 [of q] by simp
    ultimately show ?thesis
      using n by simp
  next
    fix w1
    assume ne: "\<not> exists w outputPath"
      and cd: "create_directories w (parent_path outputPath) = (True, w1)"
      and rn: "rename w1 tempPath ?target = Some w'"
    have keep: "\<And>x m. lookup w x = Some m \<Longrightarrow> lookup w1 x = Some m"
      using cd by (rule create_directories_lookup)
    from rename_Some(1) [OF rn] obtain bs' where
      o: "lookup w1 tempPath = Some (File bs')" and n: "lookup w' ?target = Some (File bs')"
      by blast
    from keep [OF t] o have "bs' = bs"
      by simp
    moreover have "q \<noteq> tempPath \<longrightarrow> q \<noteq> outputPath \<longrightarrow> q \<noteq> ?target \<longrightarrow> lookup w q = Some n \<longrightarrow>
           lookup w' q = Some n"
      using rename_Some(2) [OF rn, of q] keep [of q n] by simp
    ultimately show ?thesis
      using n ne by simp
  next
    assume ne: "\<not> exists w outputPath"
      and rn: "rename w tempPath ?target = Some w'"
    from rename_Some(1) [OF rn] t have n: "lookup w' ?target = Some (File bs)"
      by auto
    moreover have "q \<noteq> tempPath \<longrightarrow> q \<noteq> outputPath \<longrightarrow> q \<noteq> ?target \<longrightarrow> lookup w q = Some n \<longrightarrow>
           lookup w' q = Some n"
      using rename_Some(2) [OF rn, of q] by simp
    ultimately show ?thesis
      using ne by simp
  qed
  then show "lookup w' ?target = Some (File bs)"
    and "exists w outputPath \<Longrightarrow> ?target \<noteq> outputPath \<Longrightarrow> \<not> exists w' outputPath"
    and "q \<noteq> tempPath \<Longrightarrow> q \<noteq> outputPath \<Longrightarrow> q \<noteq> ?target \<Longrightarrow>
           lookup w q = Some n \<Longrightarrow> lookup w' q = Some n"
    by simp_all
qed

lemma drawTempPath_Some:
  assumes "drawTempPath w i = Some y"
  shows "\<not> exists w (fst y) \<and> i < snd y \<and> fst y = path_append (tmpdir w) (names w (snd y - 1))"
proof (rule drawTempPath.raw_induct
    [where P = "\<lambda>w i y. \<not> exists w (fst y) \<and> i < snd y
       \<and> fst y = path_append (tmpdir w) (names w (snd y - 1))", OF _ assms])
  fix f :: "world \<Rightarrow> nat \<Rightarrow> (path \<times> nat) option" and w i y
  assume ih: "\<And>w i y. f w i = Some y \<Longrightarrow>
      \<not> exists w (fst y) \<and> i < snd y \<and> fst y = path_append (tmpdir w) (names w (snd y - 1))"
    and step: "(if exists w (path_append (tmpdir w) (names w i)) then f w (Suc i)
       else Some (path_append (tmpdir w) (names w i), Suc i)) = Some y"
  show "\<not> exists w (fst y) \<and> i < snd y \<and> fst y = path_append (tmpdir w) (names w (snd y - 1))"
  proof (cases "exists w (path_append (tmpdir w) (names w i))")
    case True
    with step have "f w (Suc i) = Some y" by simp
    from ih [OF this] show ?thesis by auto
  next
    case False
    with step have "y = (path_append (tmpdir w) (names w i), Suc i)" by simp
    with False show ?thesis by simp
  qed
qed

lemma getTempPath_Returns:
  assumes "getTempPath w = Returns tempPath w1"
  shows "\<not> exists w tempPath" and "\<exists>i. w1 = w\<lparr> drawn := i \<rparr>" and "is_directory w (tmpdir w)"
proof -
  from assms have d: "is_directory w (tmpdir w)"
    by (simp add: getTempPath_def split: if_splits)
  with assms obtain i where s: "drawTempPath w (drawn w) = Some (tempPath, i)"
    and w1: "w1 = w\<lparr> drawn := i \<rparr>"
    by (auto simp: getTempPath_def split: option.splits)
  from drawTempPath_Some [OF s] show "\<not> exists w tempPath" by auto
  from w1 show "\<exists>i. w1 = w\<lparr> drawn := i \<rparr>" ..
  from d show "is_directory w (tmpdir w)" .
qed

text \<open>The loop of \<open>getTempPath\<close> ends when the random strings name pairwise different paths.\<close>

lemma drawTempPath_ends:
  assumes "distinctTempNames w"
  shows "\<exists>y. drawTempPath w i = Some y"
proof -
  from assms have inj: "inj (\<lambda>i. path_append (tmpdir w) (names w i))"
    by (simp add: distinctTempNames_def)
  let ?f = "\<lambda>i. path_append (tmpdir w) (names w i)"
  let ?E = "\<lambda>i. {j. i \<le> j \<and> exists w (?f j)}"
  have fin: "finite (?E i)" for i
  proof (rule finite_imageD)
    have "?f ` ?E i \<subseteq> fst ` set (nodes w)"
      by (auto simp: exists_def lookup_def map_of_eq_None_iff)
    then show "finite (?f ` ?E i)"
      by (rule finite_subset) simp
    show "inj_on ?f (?E i)"
      using inj by (rule inj_on_subset) simp
  qed
  show ?thesis
  proof (induction "card (?E i)" arbitrary: i)
    case 0
    with fin [of i] have "?E i = {}" by simp
    then have "\<not> exists w (?f i)" by auto
    then show ?case
      by (subst drawTempPath.simps) simp
  next
    case (Suc n)
    show ?case
    proof (cases "exists w (?f i)")
      case False
      then show ?thesis
        by (subst drawTempPath.simps) simp
    next
      case True
      have "?E (Suc i) = ?E i - {i}"
        by (auto simp: Suc_le_eq)
      moreover from True have "i \<in> ?E i" by simp
      ultimately have "card (?E (Suc i)) = n"
        using Suc.hyps(2) fin [of i] by simp
      from Suc.hyps(1) [OF this [symmetric]] obtain y where "drawTempPath w (Suc i) = Some y" ..
      with True show ?thesis
        by (subst drawTempPath.simps) simp
    qed
  qed
qed

lemma ends_simps:
  "ends (Returns x w)" "ends (Throws e w)" "\<not> ends Undefined" "\<not> ends Unfinished"
  by (simp_all add: ends_def final_world_def)

lemma final_world_simps:
  "final_world (Returns x w) = Some w" "final_world (Throws e w) = Some w"
  "final_world Undefined = None" "final_world Unfinished = None"
  by (simp_all add: final_world_def)

lemma ends_cases:
  assumes "ends r"
  obtains x w where "r = Returns x w" | e w where "r = Throws e w"
  using assms by (cases r) (simp_all add: ends_simps)

lemma getTempPath_ends:
  assumes "distinctTempNames w"
  shows "ends (getTempPath w)"
proof (cases "is_directory w (tmpdir w)")
  case False
  then show ?thesis
    by (simp add: getTempPath_def ends_simps)
next
  case True
  from drawTempPath_ends [OF assms, of "drawn w"] obtain p i
    where "drawTempPath w (drawn w) = Some (p, i)"
    by auto
  with True show ?thesis
    by (simp add: getTempPath_def ends_simps)
qed

lemma finishOutput_ends: "ends (finishOutput w tempPath outputPath ext)"
proof (cases "exists w outputPath")
  case True
  then show ?thesis
    by (simp add: finishOutput_def ends_simps split: option.splits)
next
  case False
  then show ?thesis
    by (cases "create_directories w (parent_path outputPath)")
      (simp add: finishOutput_def ends_simps split: option.splits bool.splits)
qed

lemma same_env_refl: "same_env w w"
  by (simp add: same_env_def)

lemma same_env_trans: "same_env w w1 \<Longrightarrow> same_env w1 w2 \<Longrightarrow> same_env w w2"
  by (simp add: same_env_def)

lemma same_env_store: "same_env w (store w p n)"
  by (simp add: same_env_def store_frame)

lemma same_env_drawn: "same_env w (w\<lparr> drawn := i \<rparr>)"
  by (simp add: same_env_def)

lemma same_env_distinct: "same_env w w' \<Longrightarrow> distinctTempNames w \<Longrightarrow> distinctTempNames w'"
  by (simp add: same_env_def distinctTempNames_def)

lemma finishOutput_same_env:
  assumes "final_world (finishOutput w tempPath outputPath ext) = Some w'"
  shows "same_env w w'"
proof (cases "exists w outputPath")
  case True
  show ?thesis
  proof (cases "remove_fs w outputPath")
    case None
    with True assms show ?thesis
      by (simp add: finishOutput_def final_world_simps same_env_refl)
  next
    case (Some w1)
    then have 1: "same_env w w1"
      by (simp add: same_env_def remove_fs_Some)
    show ?thesis
    proof (cases "rename w1 tempPath (replace_extension outputPath ext)")
      case None
      with True Some assms 1 show ?thesis
        by (simp add: finishOutput_def final_world_simps)
    next
      case (Some w2)
      then have "same_env w1 w2"
        by (simp add: same_env_def rename_Some)
      moreover from True \<open>remove_fs w outputPath = Some w1\<close> Some assms have "w' = w2"
        by (simp add: finishOutput_def final_world_simps)
      ultimately show ?thesis
        using 1 same_env_trans by blast
    qed
  qed
next
  case False
  obtain b w1 where cd: "(if parent_path outputPath \<noteq> []
      then create_directories w (parent_path outputPath) else (True, w)) = (b, w1)"
    by (cases "if parent_path outputPath \<noteq> []
      then create_directories w (parent_path outputPath) else (True, w)")
  then have 1: "same_env w w1"
    using create_directories_frame [of w "parent_path outputPath" b w1]
    by (auto simp: same_env_def split: if_splits)
  show ?thesis
  proof (cases b)
    case b: False
    with False cd assms have "w' = w1"
      by (simp add: finishOutput_def final_world_simps)
    with 1 show ?thesis by simp
  next
    case b: True
    show ?thesis
    proof (cases "rename w1 tempPath (replace_extension outputPath ext)")
      case None
      with False cd b assms have "w' = w1"
        by (simp add: finishOutput_def final_world_simps)
      with 1 show ?thesis by simp
    next
      case (Some w2)
      then have "same_env w1 w2"
        by (simp add: same_env_def rename_Some)
      moreover from False cd b Some assms have "w' = w2"
        by (simp add: finishOutput_def final_world_simps)
      ultimately show ?thesis
        using 1 same_env_trans by blast
    qed
  qed
qed

text \<open>The transforms, step by step.\<close>

lemma encode_eq:
  assumes "readFile w inputPath = Some P" and "getTempPath w = Returns tempPath w1"
      and "createFile w1 tempPath = Some w2"
      and "ostream_write (getHeader h format) (sizeOfHeader h format) = Some written"
  shows "encode h w inputPath format outputPath =
     finishOutput (writeFile w2 tempPath (written @ P)) tempPath outputPath
       (getEncodeExtension format)"
  using assms by (simp add: encode_def copyRest_def openStream_def)

lemma decode_eq:
  assumes "readFile w inputPath = Some bytes" and "getTempPath w = Returns tempPath w1"
      and "createFile w1 tempPath = Some w2"
  shows "decode h stale w inputPath outputPath =
     finishOutput (writeFile w2 tempPath (snd (decodeStream h stale bytes))) tempPath outputPath
       (getDecodeExtension (fst (decodeStream h stale bytes)))"
  using assms by (simp add: decode_def split_beta)

lemma encode_Returns:
  assumes "encode h w inputPath format outputPath = Returns u w'"
  obtains P tempPath w1 w2 written where "readFile w inputPath = Some P"
    and "getTempPath w = Returns tempPath w1" and "createFile w1 tempPath = Some w2"
    and "ostream_write (getHeader h format) (sizeOfHeader h format) = Some written"
    and "finishOutput (writeFile w2 tempPath (written @ P)) tempPath outputPath
       (getEncodeExtension format) = Returns u w'"
proof -
  from assms obtain P where 1: "readFile w inputPath = Some P"
    by (cases "readFile w inputPath") (simp_all add: encode_def)
  with assms obtain tempPath w1 where 2: "getTempPath w = Returns tempPath w1"
    by (cases "getTempPath w") (simp_all add: encode_def)
  with 1 assms obtain w2 where 3: "createFile w1 tempPath = Some w2"
    by (cases "createFile w1 tempPath") (simp_all add: encode_def)
  with 1 2 assms obtain written where
    4: "ostream_write (getHeader h format) (sizeOfHeader h format) = Some written"
    by (cases "ostream_write (getHeader h format) (sizeOfHeader h format)")
      (simp_all add: encode_def)
  from assms have "finishOutput (writeFile w2 tempPath (written @ P)) tempPath outputPath
       (getEncodeExtension format) = Returns u w'"
    unfolding encode_eq [OF 1 2 3 4] .
  with 1 2 3 4 that show ?thesis by blast
qed

lemma decode_Returns:
  assumes "decode h stale w inputPath outputPath = Returns u w'"
  obtains bytes tempPath w1 w2 where "readFile w inputPath = Some bytes"
    and "getTempPath w = Returns tempPath w1" and "createFile w1 tempPath = Some w2"
    and "finishOutput (writeFile w2 tempPath (snd (decodeStream h stale bytes))) tempPath
       outputPath (getDecodeExtension (fst (decodeStream h stale bytes))) = Returns u w'"
proof -
  from assms obtain bytes where 1: "readFile w inputPath = Some bytes"
    by (cases "readFile w inputPath") (simp_all add: decode_def)
  with assms obtain tempPath w1 where 2: "getTempPath w = Returns tempPath w1"
    by (cases "getTempPath w") (simp_all add: decode_def)
  with 1 assms obtain w2 where 3: "createFile w1 tempPath = Some w2"
    by (cases "createFile w1 tempPath") (simp_all add: decode_def)
  from assms have "finishOutput (writeFile w2 tempPath (snd (decodeStream h stale bytes)))
       tempPath outputPath (getDecodeExtension (fst (decodeStream h stale bytes))) = Returns u w'"
    unfolding decode_eq [OF 1 2 3] .
  with 1 2 3 that show ?thesis by blast
qed

subsection \<open>Paths\<close>

lemma filename_append:
  assumes "CHR ''/'' \<notin> set e"
  shows "filename (p @ e) = filename p @ e"
proof -
  have "takeWhile (\<lambda>c. c \<noteq> CHR ''/'') (rev e @ rev p)
      = rev e @ takeWhile (\<lambda>c. c \<noteq> CHR ''/'') (rev p)"
    using assms by (intro takeWhile_append2) auto
  then show ?thesis
    by (simp add: filename_def)
qed

lemma extension_wav:
  assumes "filename s \<noteq> []"
  shows "extension (s @ wav) = wav"
proof -
  obtain c cs where f: "filename s = c # cs"
    using assms by (cases "filename s") auto
  have fn: "filename (s @ wav) = c # cs @ ''.wav''"
    using filename_append [of wav s] f by (simp add: wav_def)
  show ?thesis
    unfolding extension_def fn by (simp add: wav_def)
qed

lemma takeWhile_shorter:
  assumes "x \<in> set xs" and "\<not> P x"
  shows "length (takeWhile P xs) < length xs"
proof -
  from assms have "takeWhile P xs \<noteq> xs"
    by (auto simp: takeWhile_eq_all_conv)
  then have "length (takeWhile P xs) \<noteq> length xs"
    by (metis takeWhile_eq_take take_all_iff order_refl)
  with length_takeWhile_le [of P xs] show ?thesis
    by simp
qed

lemma extension_shorter:
  assumes "filename p \<noteq> []"
  shows "length (extension p) < length (filename p)"
proof (cases "extension p = []")
  case True
  with assms show ?thesis by simp
next
  case False
  let ?f = "filename p"
  let ?e = "takeWhile (\<lambda>c. c \<noteq> CHR ''.'') (rev ?f)"
  from False have dot: "CHR ''.'' \<in> set ?f" and ne: "Suc (length ?e) \<noteq> length ?f"
    and ext: "extension p = CHR ''.'' # rev ?e"
    by (auto simp: extension_def Let_def split: if_splits)
  from dot have "length ?e < length (rev ?f)"
    by (intro takeWhile_shorter [of "CHR ''.''"]) simp_all
  with ne ext show ?thesis
    by simp
qed

lemma filename_stem:
  assumes "k \<le> length (filename p)"
  shows "filename (take (length p - k) p) = take (length (filename p) - k) (filename p)"
proof -
  let ?P = "\<lambda>c. c \<noteq> CHR ''/''"
  let ?rf = "takeWhile ?P (rev p)"
  let ?r = "dropWhile ?P (rev p)"
  have split: "rev p = ?rf @ ?r"
    by simp
  have k: "k \<le> length ?rf"
    using assms by (simp add: filename_def)
  have "drop k (?rf @ ?r) = drop k ?rf @ ?r"
    using k by (simp del: takeWhile_dropWhile_id)
  then have d: "drop k (rev p) = drop k ?rf @ ?r"
    by (simp only: takeWhile_dropWhile_id)
  have "k \<le> length p"
    using k length_takeWhile_le [of ?P "rev p"] by simp
  then have "rev (take (length p - k) p) = drop k (rev p)"
    by (simp add: rev_take)
  then have stem: "rev (take (length p - k) p) = drop k ?rf @ ?r"
    using d by (rule trans)
  have all: "\<And>c. c \<in> set (drop k ?rf) \<Longrightarrow> ?P c"
  proof -
    fix c
    assume "c \<in> set (drop k ?rf)"
    then have "c \<in> set ?rf"
      by (rule in_set_dropD)
    then show "?P c"
      by (auto dest: set_takeWhileD)
  qed
  have r: "takeWhile ?P ?r = []"
  proof (cases "?r = []")
    case True
    then show ?thesis by (metis takeWhile.simps(1))
  next
    case False
    then have "\<not> ?P (hd ?r)"
      by (rule hd_dropWhile)
    with False show ?thesis
      by (cases ?r) simp_all
  qed
  have "takeWhile ?P (drop k ?rf @ ?r) = drop k ?rf @ takeWhile ?P ?r"
    by (rule takeWhile_append2) (rule all)
  with r stem have "filename (take (length p - k) p) = rev (drop k ?rf)"
    by (simp add: filename_def)
  also have "\<dots> = take (length (filename p) - k) (filename p)"
    by (simp add: filename_def rev_drop)
  finally show ?thesis .
qed

lemma replace_extension_wav:
  "replace_extension p wav = take (length p - length (extension p)) p @ wav"
  by (simp add: replace_extension_def wav_def)

lemma extension_replaced:
  assumes "filename outputPath \<noteq> []"
  shows "extension (replace_extension outputPath wav) = wav"
proof -
  from assms have k: "length (extension outputPath) < length (filename outputPath)"
    by (rule extension_shorter)
  then have eq: "filename (take (length outputPath - length (extension outputPath)) outputPath)
      = take (length (filename outputPath) - length (extension outputPath)) (filename outputPath)"
    by (intro filename_stem) simp
  from k
  have ne: "take (length (filename outputPath) - length (extension outputPath)) (filename outputPath) \<noteq> []"
    by (cases "filename outputPath") simp_all
  have "filename (take (length outputPath - length (extension outputPath)) outputPath) \<noteq> []"
    unfolding eq by (rule ne)
  then show ?thesis
    unfolding replace_extension_wav by (rule extension_wav)
qed

lemma replace_extension_suffix: "suffix wav (replace_extension outputPath wav)"
  unfolding replace_extension_wav by (rule suffix_appendI) simp

subsection \<open>The example machine\<close>

lemmas fs_defs = readFile_def lookup_def exists_def is_directory_def store_def createFile_def
  writeFile_def remove_fs_def rename_def has_children_def mkdir_def

lemmas path_defs = filename_def parent_path_def extension_def replace_extension_def
  path_append_def wav_def mp3_def

lemma exampleWorld_fields:
  "nodes exampleWorld = [(''tmp'', Dir), (''a.dat'', File [CHR 0xAA]), (''old.dat'', File ''old''),
     (''plain.dat'', File ''abcde''), (''voice.wav'', File ([CHR 0xFF, CHR 0xFB] @ ''hi'')),
     (''dir'', Dir), (''dir/x'', File ''x'')]"
  "denied exampleWorld = []" "tmpdir exampleWorld = ''tmp''"
  "names exampleWorld = tempNames" "drawn exampleWorld = 0"
  by (simp_all add: exampleWorld_def)

lemma tempNames_distinct:
  assumes "tmpdir w = ''tmp''" and "names w = tempNames"
  shows "distinctTempNames w"
proof -
  have "path_append ''tmp'' (tempNames i) = ''tmp/T'' @ replicate i (CHR ''x'')" for i
    by (simp add: path_append_def tempNames_def)
  moreover have "i = j" if "replicate i (CHR ''x'') = replicate j (CHR ''x'')" for i j :: nat
    using that by (metis length_replicate)
  ultimately show ?thesis
    using assms by (auto simp: distinctTempNames_def inj_def)
qed

lemma getTempPath_example:
  assumes "nodes w = nodes exampleWorld" and "tmpdir w = ''tmp''" and "names w = tempNames"
      and "drawn w = 0"
  shows "getTempPath w = Returns ''tmp/T'' (w\<lparr> drawn := 1 \<rparr>)"
  using assms
  by (simp add: getTempPath_def drawTempPath.simps [of w] exampleWorld_fields fs_defs
      path_append_def tempNames_def)

lemma outcome_simps:
  "returned (Returns x w)" "\<not> returned (Throws e w)" "\<not> returned Undefined" "\<not> returned Unfinished"
  "thrown (Returns x w) = None" "thrown (Throws e w) = Some e"
  "thrown Undefined = None" "thrown Unfinished = None"
  "fileAfter (Returns x w) p = lookup w p" "fileAfter (Throws e w) p = lookup w p"
  by (simp_all add: returned_def thrown_def fileAfter_def final_world_def)

lemma returnedE:
  assumes "returned r"
  obtains x w where "r = Returns x w"
  using assms by (cases r) (simp_all add: outcome_simps)

lemma ostream_write_header:
  assumes "format = SFX \<or> format = VO"
  shows "ostream_write (getHeader h format) (sizeOfHeader h format) = Some (the (getHeader h format))"
  using assms by (auto simp: ostream_write_def sfxSize_def voSize_def)

lemma temp_file_written:
  assumes "createFile w1 tempPath = Some w2"
  shows "lookup (writeFile w2 tempPath bs) tempPath = Some (File bs)"
  by (simp add: writeFile_def lookup_store)

lemma encode_ends:
  assumes "distinctTempNames w" and "format = SFX \<or> format = VO"
  shows "ends (encode h w inputPath format outputPath)"
proof (cases "readFile w inputPath")
  case None
  then show ?thesis
    by (simp add: encode_def ends_simps)
next
  case (Some P)
  from getTempPath_ends [OF assms(1)] show ?thesis
  proof (rule ends_cases)
    fix e w1
    assume "getTempPath w = Throws e w1"
    with Some show ?thesis
      by (simp add: encode_def ends_simps)
  next
    fix tempPath w1
    assume t: "getTempPath w = Returns tempPath w1"
    show ?thesis
    proof (cases "createFile w1 tempPath")
      case None
      with Some t show ?thesis
        by (simp add: encode_def ends_simps)
    next
      case c: (Some w2)
      show ?thesis
        unfolding encode_eq [OF Some t c ostream_write_header [OF assms(2)]]
        by (rule finishOutput_ends)
    qed
  qed
qed

text \<open>
  Claim C5. For a readable input file with contents \<open>P\<close> and a format SFX or VO,
  \<^verbatim>\<open>encode\<close> ends (it returns or throws one of its errors) when the random names
  are distinct; when it returns, the file at the output path with its extension replaced
  by \<open>.wav\<close> holds the format's signature followed by \<open>P\<close>; that path ends in
  \<open>.wav\<close>, and \<open>.wav\<close> is its extension when the output path has a filename.
\<close>

theorem encode_output:
  assumes "format = SFX \<or> format = VO" and "readFile w inputPath = Some P"
  shows "(distinctTempNames w \<longrightarrow> ends (encode h w inputPath format outputPath))
       \<and> (encode h w inputPath format outputPath = Returns () w' \<longrightarrow>
            lookup w' (replace_extension outputPath wav)
              = Some (File (the (getHeader h format) @ P)))
       \<and> suffix wav (replace_extension outputPath wav)
       \<and> (filename outputPath \<noteq> [] \<longrightarrow> extension (replace_extension outputPath wav) = wav)"
proof -
  have "lookup w' (replace_extension outputPath wav) = Some (File (the (getHeader h format) @ P))"
    if r: "encode h w inputPath format outputPath = Returns () w'"
    using r
  proof (rule encode_Returns)
    fix P' tempPath w1 w2 written
    assume rd: "readFile w inputPath = Some P'"
      and c: "createFile w1 tempPath = Some w2"
      and wr: "ostream_write (getHeader h format) (sizeOfHeader h format) = Some written"
      and f: "finishOutput (writeFile w2 tempPath (written @ P')) tempPath outputPath
         (getEncodeExtension format) = Returns () w'"
    from rd assms(2) have P: "P' = P" by simp
    from wr ostream_write_header [OF assms(1), of h] have w: "written = the (getHeader h format)"
      by simp
    from finishOutput_Returns(1) [OF f temp_file_written [OF c]] P w show ?thesis
      by (simp add: getEncodeExtension_def)
  qed
  with encode_ends [OF _ assms(1)] replace_extension_suffix extension_replaced show ?thesis
    by blast
qed

text \<open>
  Witness for C5: on the example machine, \<open>a.dat\<close> (the byte \<open>AA\<close>) encoded as VO
  to \<open>new.dat\<close> returns and leaves \<open>FF FB AA\<close> in \<open>new.wav\<close>.
\<close>

theorem encode_output_witness:
  "returned (encode testHeader exampleWorld ''a.dat'' VO ''new.dat'')
   \<and> fileAfter (encode testHeader exampleWorld ''a.dat'' VO ''new.dat'') ''new.wav''
       = Some (File [CHR 0xFF, CHR 0xFB, CHR 0xAA])
   \<and> extension ''new.wav'' = ''.wav''"
proof -
  have rd: "readFile exampleWorld ''a.dat'' = Some [CHR 0xAA]"
    by (simp add: fs_defs exampleWorld_fields)
  have d: "distinctTempNames exampleWorld"
    by (rule tempNames_distinct) (simp_all add: exampleWorld_fields)
  have t: "getTempPath exampleWorld = Returns ''tmp/T'' (exampleWorld\<lparr> drawn := 1 \<rparr>)"
    by (rule getTempPath_example) (simp_all add: exampleWorld_fields)
  have c: "createFile (exampleWorld\<lparr> drawn := 1 \<rparr>) ''tmp/T''
      = Some (store (exampleWorld\<lparr> drawn := 1 \<rparr>) ''tmp/T'' (File []))"
    by (simp add: createFile_def is_directory_def lookup_def exampleWorld_fields parent_path_def)
  have w: "ostream_write (getHeader testHeader VO) (sizeOfHeader testHeader VO)
      = Some [CHR 0xFF, CHR 0xFB]"
    by (simp add: ostream_write_def testHeader_simps)
  have r: "returned (encode testHeader exampleWorld ''a.dat'' VO ''new.dat'')"
    unfolding encode_eq [OF rd t c w]
    by (simp add: finishOutput_def fs_defs path_defs getEncodeExtension_def exampleWorld_fields
        outcome_simps)
  then obtain u w' where e: "encode testHeader exampleWorld ''a.dat'' VO ''new.dat'' = Returns u w'"
    by (rule returnedE)
  have x: "replace_extension ''new.dat'' wav = ''new.wav''"
    by (simp add: path_defs)
  from encode_output [OF _ rd, of VO testHeader "''new.dat''" w'] e x
  have "lookup w' ''new.wav'' = Some (File [CHR 0xFF, CHR 0xFB, CHR 0xAA])"
    and "extension ''new.wav'' = wav"
    by (simp_all add: testHeader_simps filename_def)
  with r e show ?thesis
    by (simp add: outcome_simps wav_def)
qed

subsection \<open>The temporary file and the end of a transform\<close>

lemma update_keeps:
  "(q, n) \<in> set al \<Longrightarrow> q \<noteq> k \<Longrightarrow> (q, n) \<in> set (AList.update k v al)"
  by (induction al) auto

lemma lookup_in_nodes: "lookup w q = Some n \<Longrightarrow> (q, n) \<in> set (nodes w)"
  by (simp add: lookup_def map_of_SomeD)

lemma in_nodes_exists: "(q, n) \<in> set (nodes w) \<Longrightarrow> exists w q"
  by (force simp: exists_def lookup_def map_of_eq_None_iff)

lemma has_children_iff:
  "has_children w p = (\<exists>(q, n)\<in>set (nodes w). q \<noteq> p \<and> parent_path q = p)"
  by (simp add: has_children_def list_ex_iff)

lemma staged:
  assumes t: "getTempPath w = Returns tempPath w1" and c: "createFile w1 tempPath = Some w2"
  shows "lookup (writeFile w2 tempPath bs) tempPath = Some (File bs)"
    and "q \<noteq> tempPath \<Longrightarrow> lookup (writeFile w2 tempPath bs) q = lookup w q"
    and "denied (writeFile w2 tempPath bs) = denied w"
    and "parent_path tempPath = [] \<or> is_directory (writeFile w2 tempPath bs) (parent_path tempPath)"
    and "\<not> exists w tempPath"
    and "(q, n) \<in> set (nodes w) \<Longrightarrow> (q, n) \<in> set (nodes (writeFile w2 tempPath bs))"
proof -
  from getTempPath_Returns [OF t] obtain i where w1: "w1 = w\<lparr> drawn := i \<rparr>"
    and free: "\<not> exists w tempPath"
    by blast
  from c have w2: "w2 = store w1 tempPath (File [])"
    and ok: "tempPath \<notin> set (denied w1)" "\<not> is_directory w1 tempPath"
      "parent_path tempPath = [] \<or> is_directory w1 (parent_path tempPath)"
    by (auto simp: createFile_def split: if_splits)
  have l1: "lookup w1 x = lookup w x" for x
    by (simp add: w1 lookup_def)
  show "lookup (writeFile w2 tempPath bs) tempPath = Some (File bs)"
    by (simp add: writeFile_def lookup_store)
  show "q \<noteq> tempPath \<Longrightarrow> lookup (writeFile w2 tempPath bs) q = lookup w q"
    by (simp add: writeFile_def w2 lookup_store l1)
  show "denied (writeFile w2 tempPath bs) = denied w"
    by (simp add: writeFile_def w2 store_frame w1)
  show "parent_path tempPath = [] \<or> is_directory (writeFile w2 tempPath bs) (parent_path tempPath)"
  proof (cases "parent_path tempPath = []")
    case True
    then show ?thesis ..
  next
    case False
    with ok(3) have d: "is_directory w1 (parent_path tempPath)" by simp
    with ok(2) have "parent_path tempPath \<noteq> tempPath" by auto
    with d show ?thesis
      by (simp add: is_directory_def writeFile_def w2 lookup_store)
  qed
  show "\<not> exists w tempPath"
    by (rule free)
  show "(q, n) \<in> set (nodes (writeFile w2 tempPath bs))" if "(q, n) \<in> set (nodes w)"
  proof -
    from that free have "q \<noteq> tempPath"
      using in_nodes_exists by blast
    with that show ?thesis
      by (simp add: writeFile_def w2 store_def w1 update_keeps)
  qed
qed

lemma finishOutput_parent:
  assumes r: "finishOutput w tempPath outputPath ext = Returns () w'"
      and ex: "exists w outputPath"
      and t: "lookup w tempPath = Some (File bs)"
      and p: "parent_path tempPath = [] \<or> is_directory w (parent_path tempPath)"
      and ne: "parent_path (replace_extension outputPath ext) \<noteq> []"
  shows "is_directory w' (parent_path (replace_extension outputPath ext))"
  using r
proof (rule finishOutput_cases)
  let ?target = "replace_extension outputPath ext"
  fix w1
  assume rm: "remove_fs w outputPath = Some w1" and rn: "rename w1 tempPath ?target = Some w'"
  have l1: "\<And>x. lookup w1 x = (if x = outputPath then None else lookup w x)"
    by (rule remove_fs_Some(1) [OF rm])
  show ?thesis
  proof (cases "tempPath = ?target")
    case False
    with rn ne show ?thesis
      by (intro rename_parent)
  next
    case True
    from rename_Some(1) [OF rn] l1 [of tempPath] have tn: "tempPath \<noteq> outputPath"
      by (auto split: if_splits)
    from rn True have w': "w' = w1"
      by (auto elim: rename_cases)
    from True ne p have d: "is_directory w (parent_path tempPath)"
      by simp
    have "parent_path tempPath \<noteq> outputPath"
    proof
      assume eq: "parent_path tempPath = outputPath"
      from t have "(tempPath, File bs) \<in> set (nodes w)"
        by (rule lookup_in_nodes)
      with tn eq have "has_children w outputPath"
        by (auto simp: has_children_iff)
      with d eq have "remove_fs w outputPath = None"
        by (simp add: remove_fs_def is_directory_def)
      with rm show False by simp
    qed
    with d True show ?thesis
      by (simp add: w' is_directory_def l1)
  qed
next
  assume "\<not> exists w outputPath"
  with ex show ?thesis by simp
next
  fix w1
  assume "\<not> exists w outputPath"
  with ex show ?thesis by simp
qed

lemma finishOutput_DeleteError:
  assumes "exists w outputPath"
      and "outputPath \<in> set (denied w) \<or> (is_directory w outputPath \<and> has_children w outputPath)"
  shows "finishOutput w tempPath outputPath ext = Throws (DeleteError outputPath) w"
proof -
  from assms have "remove_fs w outputPath = None"
    by (auto simp: remove_fs_def exists_def is_directory_def)
  with assms(1) show ?thesis
    by (simp add: finishOutput_def)
qed

lemma staged_removal_fails:
  assumes t: "getTempPath w = Returns tempPath w1" and c: "createFile w1 tempPath = Some w2"
      and ex: "exists w outputPath"
      and f: "outputPath \<in> set (denied w) \<or> (is_directory w outputPath \<and> has_children w outputPath)"
  shows "finishOutput (writeFile w2 tempPath bs) tempPath outputPath ext
     = Throws (DeleteError outputPath) (writeFile w2 tempPath bs)"
proof (rule finishOutput_DeleteError)
  let ?w3 = "writeFile w2 tempPath bs"
  from ex staged(5) [OF t c] have ne: "outputPath \<noteq> tempPath"
    by auto
  then have l: "lookup ?w3 outputPath = lookup w outputPath"
    by (rule staged(2) [OF t c])
  with ex show "exists ?w3 outputPath"
    by (simp add: exists_def)
  have "has_children ?w3 outputPath" if "has_children w outputPath"
    using that staged(6) [OF t c] unfolding has_children_iff by blast
  with f l show "outputPath \<in> set (denied ?w3)
      \<or> (is_directory ?w3 outputPath \<and> has_children ?w3 outputPath)"
    by (auto simp: staged(3) [OF t c] is_directory_def)
qed

text \<open>
  Claim C6. When the output path exists, \<^verbatim>\<open>encode\<close> and \<^verbatim>\<open>decode\<close> remove it
  and then rename the temporary file to the output path with its extension replaced
  (\<open>.wav\<close> on encode; on decode \<open>.mp3\<close> for VO and \<open>.wav\<close> otherwise). After a
  return, that path holds what the transform wrote to its temporary file, the old output
  is gone unless it is that path, and the directory of that path exists. When the removal
  fails (a path without access, a directory that is not empty), the transform does not
  return, and once the temporary file is written it throws the delete error.
\<close>

theorem finalization_existing_output:
  assumes ex: "exists w outputPath"
  shows "(format = SFX \<or> format = VO \<longrightarrow> readFile w inputPath = Some P \<longrightarrow>
          encode h w inputPath format outputPath = Returns () w' \<longrightarrow>
            lookup w' (replace_extension outputPath wav)
              = Some (File (the (getHeader h format) @ P))
            \<and> (replace_extension outputPath wav \<noteq> outputPath \<longrightarrow> \<not> exists w' outputPath)
            \<and> (parent_path (replace_extension outputPath wav) \<noteq> [] \<longrightarrow>
                 is_directory w' (parent_path (replace_extension outputPath wav))))
       \<and> (readFile w inputPath = Some P \<longrightarrow>
          decode h stale w inputPath outputPath = Returns () w' \<longrightarrow>
            (let detected = fst (decodeStream h stale P);
                 target = replace_extension outputPath (if detected = VO then mp3 else wav)
             in lookup w' target = Some (File (snd (decodeStream h stale P)))
                \<and> (target \<noteq> outputPath \<longrightarrow> \<not> exists w' outputPath)
                \<and> (parent_path target \<noteq> [] \<longrightarrow> is_directory w' (parent_path target))))
       \<and> (outputPath \<in> set (denied w) \<or> (is_directory w outputPath \<and> has_children w outputPath) \<longrightarrow>
            \<not> returned (encode h w inputPath format outputPath)
            \<and> \<not> returned (decode h stale w inputPath outputPath)
            \<and> (readFile w inputPath = Some P \<longrightarrow> getTempPath w = Returns tempPath w1 \<longrightarrow>
                 createFile w1 tempPath = Some w2 \<longrightarrow>
                   (format = SFX \<or> format = VO \<longrightarrow>
                      thrown (encode h w inputPath format outputPath) = Some (DeleteError outputPath))
                   \<and> thrown (decode h stale w inputPath outputPath) = Some (DeleteError outputPath)))"
proof (intro conjI impI)
  assume fmt: "format = SFX \<or> format = VO" and rd: "readFile w inputPath = Some P"
    and r: "encode h w inputPath format outputPath = Returns () w'"
  let ?target = "replace_extension outputPath wav"
  from r have "lookup w' ?target = Some (File (the (getHeader h format) @ P))
      \<and> (?target \<noteq> outputPath \<longrightarrow> \<not> exists w' outputPath)
      \<and> (parent_path ?target \<noteq> [] \<longrightarrow> is_directory w' (parent_path ?target))"
  proof (rule encode_Returns)
    fix P' tempPath w1 w2 written
    assume rd': "readFile w inputPath = Some P'"
      and t: "getTempPath w = Returns tempPath w1"
      and c: "createFile w1 tempPath = Some w2"
      and wr: "ostream_write (getHeader h format) (sizeOfHeader h format) = Some written"
      and f: "finishOutput (writeFile w2 tempPath (written @ P')) tempPath outputPath
         (getEncodeExtension format) = Returns () w'"
    let ?w3 = "writeFile w2 tempPath (written @ P')"
    from rd rd' wr ostream_write_header [OF fmt, of h]
    have bs: "written @ P' = the (getHeader h format) @ P"
      by simp
    from ex staged(5) [OF t c] have "outputPath \<noteq> tempPath"
      by auto
    with ex have ex3: "exists ?w3 outputPath"
      by (simp add: exists_def staged(2) [OF t c])
    note f' = f [unfolded getEncodeExtension_def]
    from finishOutput_Returns(1) [OF f' staged(1) [OF t c]] bs
    have "lookup w' ?target = Some (File (the (getHeader h format) @ P))"
      by simp
    moreover have "?target \<noteq> outputPath \<longrightarrow> \<not> exists w' outputPath"
      using finishOutput_Returns(2) [OF f' staged(1) [OF t c] ex3] by simp
    moreover have "parent_path ?target \<noteq> [] \<longrightarrow> is_directory w' (parent_path ?target)"
      using finishOutput_parent [OF f' ex3 staged(1) [OF t c] staged(4) [OF t c]] by simp
    ultimately show ?thesis
      by simp
  qed
  then show "lookup w' ?target = Some (File (the (getHeader h format) @ P))"
    and "?target \<noteq> outputPath \<Longrightarrow> \<not> exists w' outputPath"
    and "parent_path ?target \<noteq> [] \<Longrightarrow> is_directory w' (parent_path ?target)"
    by simp_all
next
  assume rd: "readFile w inputPath = Some P"
    and r: "decode h stale w inputPath outputPath = Returns () w'"
  let ?ext = "if fst (decodeStream h stale P) = VO then mp3 else wav"
  let ?target = "replace_extension outputPath ?ext"
  from r have "lookup w' ?target = Some (File (snd (decodeStream h stale P)))
      \<and> (?target \<noteq> outputPath \<longrightarrow> \<not> exists w' outputPath)
      \<and> (parent_path ?target \<noteq> [] \<longrightarrow> is_directory w' (parent_path ?target))"
  proof (rule decode_Returns)
    fix bytes tempPath w1 w2
    assume rd': "readFile w inputPath = Some bytes"
      and t: "getTempPath w = Returns tempPath w1"
      and c: "createFile w1 tempPath = Some w2"
      and f: "finishOutput (writeFile w2 tempPath (snd (decodeStream h stale bytes))) tempPath
         outputPath (getDecodeExtension (fst (decodeStream h stale bytes))) = Returns () w'"
    let ?w3 = "writeFile w2 tempPath (snd (decodeStream h stale bytes))"
    from rd rd' have bs: "bytes = P"
      by simp
    from ex staged(5) [OF t c] have "outputPath \<noteq> tempPath"
      by auto
    with ex have ex3: "exists ?w3 outputPath"
      by (simp add: exists_def staged(2) [OF t c])
    note f' = f [unfolded getDecodeExtension_def bs]
    note s1 = staged(1) [OF t c, of "snd (decodeStream h stale P)"]
    note s4 = staged(4) [OF t c, of "snd (decodeStream h stale P)"]
    from finishOutput_Returns(1) [OF f' s1]
    have "lookup w' ?target = Some (File (snd (decodeStream h stale P)))" .
    moreover have "?target \<noteq> outputPath \<longrightarrow> \<not> exists w' outputPath"
      using finishOutput_Returns(2) [OF f' s1] ex3 bs by simp
    moreover have "parent_path ?target \<noteq> [] \<longrightarrow> is_directory w' (parent_path ?target)"
      using finishOutput_parent [OF f' _ s1 s4] ex3 bs by simp
    ultimately show ?thesis
      by simp
  qed
  then show "let detected = fst (decodeStream h stale P);
        target = replace_extension outputPath (if detected = VO then mp3 else wav)
    in lookup w' target = Some (File (snd (decodeStream h stale P)))
       \<and> (target \<noteq> outputPath \<longrightarrow> \<not> exists w' outputPath)
       \<and> (parent_path target \<noteq> [] \<longrightarrow> is_directory w' (parent_path target))"
    by (simp add: Let_def)
next
  assume f: "outputPath \<in> set (denied w) \<or> (is_directory w outputPath \<and> has_children w outputPath)"
  show "\<not> returned (encode h w inputPath format outputPath)"
  proof
    assume "returned (encode h w inputPath format outputPath)"
    then obtain u w'' where "encode h w inputPath format outputPath = Returns u w''"
      by (rule returnedE)
    then show False
    proof (rule encode_Returns)
      fix P' tempPath w1 w2 written
      assume t: "getTempPath w = Returns tempPath w1" and c: "createFile w1 tempPath = Some w2"
        and "finishOutput (writeFile w2 tempPath (written @ P')) tempPath outputPath
         (getEncodeExtension format) = Returns u w''"
      with staged_removal_fails [OF t c ex f] show False
        by simp
    qed
  qed
  show "\<not> returned (decode h stale w inputPath outputPath)"
  proof
    assume "returned (decode h stale w inputPath outputPath)"
    then obtain u w'' where "decode h stale w inputPath outputPath = Returns u w''"
      by (rule returnedE)
    then show False
    proof (rule decode_Returns)
      fix bytes tempPath w1 w2
      assume t: "getTempPath w = Returns tempPath w1" and c: "createFile w1 tempPath = Some w2"
        and "finishOutput (writeFile w2 tempPath (snd (decodeStream h stale bytes))) tempPath
         outputPath (getDecodeExtension (fst (decodeStream h stale bytes))) = Returns u w''"
      with staged_removal_fails [OF t c ex f] show False
        by simp
    qed
  qed
  {
    assume rd: "readFile w inputPath = Some P" and t: "getTempPath w = Returns tempPath w1"
      and c: "createFile w1 tempPath = Some w2"
    show "thrown (decode h stale w inputPath outputPath) = Some (DeleteError outputPath)"
      unfolding decode_eq [OF rd t c] staged_removal_fails [OF t c ex f]
      by (simp add: outcome_simps)
    assume fmt: "format = SFX \<or> format = VO"
    show "thrown (encode h w inputPath format outputPath) = Some (DeleteError outputPath)"
      unfolding encode_eq [OF rd t c ostream_write_header [OF fmt]]
        staged_removal_fails [OF t c ex f]
      by (simp add: outcome_simps)
  }
qed

lemma example_temp:
  "getTempPath exampleWorld = Returns ''tmp/T'' (exampleWorld\<lparr> drawn := 1 \<rparr>)"
  "createFile (exampleWorld\<lparr> drawn := 1 \<rparr>) ''tmp/T''
     = Some (store (exampleWorld\<lparr> drawn := 1 \<rparr>) ''tmp/T'' (File []))"
proof -
  show "getTempPath exampleWorld = Returns ''tmp/T'' (exampleWorld\<lparr> drawn := 1 \<rparr>)"
    by (rule getTempPath_example) (simp_all add: exampleWorld_fields)
  show "createFile (exampleWorld\<lparr> drawn := 1 \<rparr>) ''tmp/T''
     = Some (store (exampleWorld\<lparr> drawn := 1 \<rparr>) ''tmp/T'' (File []))"
    by (simp add: createFile_def is_directory_def lookup_def exampleWorld_fields parent_path_def)
qed

lemma example_files:
  "readFile exampleWorld ''a.dat'' = Some [CHR 0xAA]"
  "readFile exampleWorld ''plain.dat'' = Some ''abcde''"
  "readFile exampleWorld ''voice.wav'' = Some ([CHR 0xFF, CHR 0xFB] @ ''hi'')"
  by (simp_all add: fs_defs exampleWorld_fields)

lemma example_header_VO:
  "ostream_write (getHeader testHeader VO) (sizeOfHeader testHeader VO) = Some [CHR 0xFF, CHR 0xFB]"
  by (simp add: ostream_write_def testHeader_simps)

lemmas finish_defs = finishOutput_def fs_defs path_defs getEncodeExtension_def
  getDecodeExtension_def exampleWorld_fields outcome_simps

text \<open>
  Witness for C6, on the example machine: encoding \<open>a.dat\<close> onto the existing
  \<open>old.dat\<close> returns, leaves \<open>FF FB AA\<close> in \<open>old.wav\<close> and no \<open>old.dat\<close>;
  decoding \<open>voice.wav\<close> onto \<open>old.dat\<close> leaves the payload in \<open>old.mp3\<close>; and with
  the directory \<open>dir\<close>, which is not empty, as the output both throw the delete error.
\<close>

theorem finalization_existing_output_witness:
  "exists exampleWorld ''old.dat''
   \<and> returned (encode testHeader exampleWorld ''a.dat'' VO ''old.dat'')
   \<and> fileAfter (encode testHeader exampleWorld ''a.dat'' VO ''old.dat'') ''old.wav''
       = Some (File [CHR 0xFF, CHR 0xFB, CHR 0xAA])
   \<and> fileAfter (encode testHeader exampleWorld ''a.dat'' VO ''old.dat'') ''old.dat'' = None
   \<and> returned (decode testHeader ''zzzz'' exampleWorld ''voice.wav'' ''old.dat'')
   \<and> fileAfter (decode testHeader ''zzzz'' exampleWorld ''voice.wav'' ''old.dat'') ''old.mp3''
       = Some (File ''hi'')
   \<and> fileAfter (decode testHeader ''zzzz'' exampleWorld ''voice.wav'' ''old.dat'') ''old.dat'' = None
   \<and> is_directory exampleWorld ''dir'' \<and> has_children exampleWorld ''dir''
   \<and> thrown (encode testHeader exampleWorld ''a.dat'' VO ''dir'') = Some (DeleteError ''dir'')
   \<and> thrown (decode testHeader ''zzzz'' exampleWorld ''voice.wav'' ''dir'') = Some (DeleteError ''dir'')"
proof -
  have ex: "exists exampleWorld ''old.dat''"
    by (simp add: fs_defs exampleWorld_fields)
  have exd: "exists exampleWorld ''dir''" and d: "is_directory exampleWorld ''dir''"
    and hc: "has_children exampleWorld ''dir''"
    by (simp_all add: fs_defs exampleWorld_fields parent_path_def)
  have ds: "decodeStream testHeader ''zzzz'' ([CHR 0xFF, CHR 0xFB] @ ''hi'') = (VO, ''hi'')"
    by (simp add: decodeStream_def formatOf_def stream_defs openStream_def fillBuffer_def
        testHeader_simps Let_def)
  have x: "replace_extension ''old.dat'' wav = ''old.wav''"
    "replace_extension ''old.dat'' mp3 = ''old.mp3''"
    by (simp_all add: path_defs)
  have re: "returned (encode testHeader exampleWorld ''a.dat'' VO ''old.dat'')"
    unfolding encode_eq [OF example_files(1) example_temp example_header_VO]
    by (simp add: finish_defs)
  then obtain u w' where e: "encode testHeader exampleWorld ''a.dat'' VO ''old.dat'' = Returns u w'"
    by (rule returnedE)
  have rd: "returned (decode testHeader ''zzzz'' exampleWorld ''voice.wav'' ''old.dat'')"
    unfolding decode_eq [OF example_files(3) example_temp] ds
    by (simp add: finish_defs)
  then obtain u' w'' where
    e': "decode testHeader ''zzzz'' exampleWorld ''voice.wav'' ''old.dat'' = Returns u' w''"
    by (rule returnedE)
  note thm1 = finalization_existing_output [OF ex, where format = VO and h = testHeader
      and inputPath = "''a.dat''" and P = "[CHR 0xAA]" and w' = w']
  note thm2 = finalization_existing_output [OF ex, where h = testHeader and stale = "''zzzz''"
      and inputPath = "''voice.wav''" and P = "[CHR 0xFF, CHR 0xFB] @ ''hi''" and w' = w'']
  note thm3 = finalization_existing_output [OF exd, where format = VO and h = testHeader
      and stale = "''zzzz''" and inputPath = "''a.dat''" and P = "[CHR 0xAA]"
      and tempPath = "''tmp/T''" and ?w1.0 = "exampleWorld\<lparr> drawn := 1 \<rparr>"
      and ?w2.0 = "store (exampleWorld\<lparr> drawn := 1 \<rparr>) ''tmp/T'' (File [])"]
  note thm4 = finalization_existing_output [OF exd, where format = VO and h = testHeader
      and stale = "''zzzz''" and inputPath = "''voice.wav''" and P = "[CHR 0xFF, CHR 0xFB] @ ''hi''"
      and tempPath = "''tmp/T''" and ?w1.0 = "exampleWorld\<lparr> drawn := 1 \<rparr>"
      and ?w2.0 = "store (exampleWorld\<lparr> drawn := 1 \<rparr>) ''tmp/T'' (File [])"]
  from thm1 e example_files(1) x
  have 1: "lookup w' ''old.wav'' = Some (File [CHR 0xFF, CHR 0xFB, CHR 0xAA])"
    and 2: "\<not> exists w' ''old.dat''"
    by (simp_all add: testHeader_simps)
  from thm2 e' example_files(3) x ds
  have 3: "lookup w'' ''old.mp3'' = Some (File ''hi'')" and 4: "\<not> exists w'' ''old.dat''"
    by (simp_all add: Let_def)
  from thm3 d hc example_files(1) example_temp
  have 5: "thrown (encode testHeader exampleWorld ''a.dat'' VO ''dir'') = Some (DeleteError ''dir'')"
    by simp
  from thm4 d hc example_files(3) example_temp
  have 6: "thrown (decode testHeader ''zzzz'' exampleWorld ''voice.wav'' ''dir'')
      = Some (DeleteError ''dir'')"
    by simp
  from ex re rd d hc 1 2 3 4 5 6 e e' show ?thesis
    by (simp add: outcome_simps exists_def)
qed

subsection \<open>What a returning transform leaves behind\<close>

lemma encode_leaves:
  assumes fmt: "format = SFX \<or> format = VO" and rd: "readFile w inputPath = Some P"
      and r: "encode h w inputPath format outputPath = Returns () w'"
  shows "lookup w' (replace_extension outputPath wav) = Some (File (the (getHeader h format) @ P))"
    and "q \<noteq> outputPath \<Longrightarrow> q \<noteq> replace_extension outputPath wav \<Longrightarrow>
           lookup w q = Some n \<Longrightarrow> lookup w' q = Some n"
proof -
  let ?target = "replace_extension outputPath wav"
  from r have "lookup w' ?target = Some (File (the (getHeader h format) @ P))
      \<and> (q \<noteq> outputPath \<longrightarrow> q \<noteq> ?target \<longrightarrow> lookup w q = Some n \<longrightarrow> lookup w' q = Some n)"
  proof (rule encode_Returns)
    fix P' tempPath w1 w2 written
    assume rd': "readFile w inputPath = Some P'"
      and t: "getTempPath w = Returns tempPath w1"
      and c: "createFile w1 tempPath = Some w2"
      and wr: "ostream_write (getHeader h format) (sizeOfHeader h format) = Some written"
      and f: "finishOutput (writeFile w2 tempPath (written @ P')) tempPath outputPath
         (getEncodeExtension format) = Returns () w'"
    from rd rd' wr ostream_write_header [OF fmt, of h]
    have bs: "written @ P' = the (getHeader h format) @ P"
      by simp
    note f' = f [unfolded getEncodeExtension_def]
    note s1 = staged(1) [OF t c, of "written @ P'"]
    from finishOutput_Returns(1) [OF f' s1] bs
    have "lookup w' ?target = Some (File (the (getHeader h format) @ P))"
      by simp
    moreover have "lookup w' q = Some n"
      if "q \<noteq> outputPath" "q \<noteq> ?target" "lookup w q = Some n"
    proof -
      from that(3) staged(5) [OF t c] have qt: "q \<noteq> tempPath"
        by (auto simp: exists_def)
      then have "lookup (writeFile w2 tempPath (written @ P')) q = Some n"
        using that(3) by (simp add: staged(2) [OF t c])
      with finishOutput_Returns(3) [OF f' s1 qt that(1,2)] show ?thesis
        by simp
    qed
    ultimately show ?thesis
      by simp
  qed
  then show "lookup w' ?target = Some (File (the (getHeader h format) @ P))"
    and "q \<noteq> outputPath \<Longrightarrow> q \<noteq> ?target \<Longrightarrow> lookup w q = Some n \<Longrightarrow> lookup w' q = Some n"
    by simp_all
qed

lemma decode_leaves:
  assumes rd: "readFile w inputPath = Some bytes"
      and r: "decode h stale w inputPath outputPath = Returns () w'"
  shows "lookup w' (replace_extension outputPath (getDecodeExtension (fst (decodeStream h stale bytes))))
           = Some (File (snd (decodeStream h stale bytes)))"
    and "q \<noteq> outputPath \<Longrightarrow>
           q \<noteq> replace_extension outputPath (getDecodeExtension (fst (decodeStream h stale bytes))) \<Longrightarrow>
           lookup w q = Some n \<Longrightarrow> lookup w' q = Some n"
proof -
  let ?target = "replace_extension outputPath (getDecodeExtension (fst (decodeStream h stale bytes)))"
  from r have "lookup w' ?target = Some (File (snd (decodeStream h stale bytes)))
      \<and> (q \<noteq> outputPath \<longrightarrow> q \<noteq> ?target \<longrightarrow> lookup w q = Some n \<longrightarrow> lookup w' q = Some n)"
  proof (rule decode_Returns)
    fix bytes' tempPath w1 w2
    assume rd': "readFile w inputPath = Some bytes'"
      and t: "getTempPath w = Returns tempPath w1"
      and c: "createFile w1 tempPath = Some w2"
      and f: "finishOutput (writeFile w2 tempPath (snd (decodeStream h stale bytes'))) tempPath
         outputPath (getDecodeExtension (fst (decodeStream h stale bytes'))) = Returns () w'"
    from rd rd' have bs: "bytes' = bytes"
      by simp
    note f' = f [unfolded bs]
    note s1 = staged(1) [OF t c, of "snd (decodeStream h stale bytes)"]
    from finishOutput_Returns(1) [OF f' s1]
    have "lookup w' ?target = Some (File (snd (decodeStream h stale bytes)))" .
    moreover have "lookup w' q = Some n"
      if "q \<noteq> outputPath" "q \<noteq> ?target" "lookup w q = Some n"
    proof -
      from that(3) staged(5) [OF t c] have qt: "q \<noteq> tempPath"
        by (auto simp: exists_def)
      then have "lookup (writeFile w2 tempPath (snd (decodeStream h stale bytes))) q = Some n"
        using that(3) by (simp add: staged(2) [OF t c])
      with finishOutput_Returns(3) [OF f' s1 qt that(1,2)] show ?thesis
        by simp
    qed
    ultimately show ?thesis
      by simp
  qed
  then show "lookup w' ?target = Some (File (snd (decodeStream h stale bytes)))"
    and "q \<noteq> outputPath \<Longrightarrow> q \<noteq> ?target \<Longrightarrow> lookup w q = Some n \<Longrightarrow> lookup w' q = Some n"
    by simp_all
qed

lemma readFile_lookup: "readFile w p = Some bs \<Longrightarrow> lookup w p = Some (File bs)"
  by (auto simp: readFile_def split: option.splits node.splits if_splits)

lemma replace_extension_empty:
  "replace_extension [] wav = wav" "replace_extension [] mp3 = mp3"
  by (simp_all add: path_defs)

lemma decodeStream_NONE_long:
  assumes "maxSize h \<le> length bytes" and "fst (decodeStream h stale bytes) = NONE"
  shows "snd (decodeStream h stale bytes) = bytes"
proof -
  have g: "good (openStream bytes)"
    by (simp add: good_def openStream_def)
  have l: "maxSize h \<le> length (content (openStream bytes))"
    using assms(1) by (simp add: openStream_def)
  obtain format where f: "formatOf h stale (openStream bytes) = (format, openStream bytes)"
    using formatOf_good_long [OF g l, of stale] by simp
  with assms(2) have "format = NONE"
    by (simp add: decodeStream_def split_beta)
  with f show ?thesis
    by (simp add: decodeStream_def copyRest_def openStream_def)
qed

text \<open>
  Claim C7, as the code has it. \<^verbatim>\<open>encode\<close> and \<^verbatim>\<open>decode\<close> of codec.cpp do not
  replace an empty output path by the input path: the temporary file is renamed to the
  empty path with its extension replaced, that is, to a file named \<open>.wav\<close> (or
  \<open>.mp3\<close>) in the current directory, and the input file keeps its contents.
\<close>

theorem empty_output_path:
  assumes rd: "readFile w inputPath = Some P"
  shows "(format = SFX \<or> format = VO \<longrightarrow> encode h w inputPath format [] = Returns () w' \<longrightarrow>
            lookup w' wav = Some (File (the (getHeader h format) @ P))
            \<and> (inputPath \<noteq> [] \<longrightarrow> inputPath \<noteq> wav \<longrightarrow> lookup w' inputPath = Some (File P)))
       \<and> (decode h stale w inputPath [] = Returns () w' \<longrightarrow>
            (let target = (if fst (decodeStream h stale P) = VO then mp3 else wav)
             in lookup w' target = Some (File (snd (decodeStream h stale P)))
                \<and> (inputPath \<noteq> [] \<longrightarrow> inputPath \<noteq> target \<longrightarrow>
                     lookup w' inputPath = Some (File P))))"
proof (intro conjI impI)
  assume fmt: "format = SFX \<or> format = VO" and r: "encode h w inputPath format [] = Returns () w'"
  from encode_leaves(1) [OF fmt rd r]
  show "lookup w' wav = Some (File (the (getHeader h format) @ P))"
    by (simp add: replace_extension_empty)
  assume "inputPath \<noteq> []" and "inputPath \<noteq> wav"
  with encode_leaves(2) [OF fmt rd r, of inputPath "File P"] readFile_lookup [OF rd]
  show "lookup w' inputPath = Some (File P)"
    by (simp add: replace_extension_empty)
next
  assume r: "decode h stale w inputPath [] = Returns () w'"
  let ?target = "if fst (decodeStream h stale P) = VO then mp3 else wav"
  have t: "replace_extension [] (getDecodeExtension (fst (decodeStream h stale P))) = ?target"
    by (simp add: getDecodeExtension_def replace_extension_empty)
  from decode_leaves(1) [OF rd r]
  have 1: "lookup w' ?target = Some (File (snd (decodeStream h stale P)))"
    unfolding t .
  have 2: "lookup w' inputPath = Some (File P)" if "inputPath \<noteq> []" "inputPath \<noteq> ?target"
    using decode_leaves(2) [OF rd r, of inputPath "File P"] readFile_lookup [OF rd] that
    unfolding t by simp
  from 1 2 show "let target = (if fst (decodeStream h stale P) = VO then mp3 else wav)
     in lookup w' target = Some (File (snd (decodeStream h stale P)))
        \<and> (inputPath \<noteq> [] \<longrightarrow> inputPath \<noteq> target \<longrightarrow> lookup w' inputPath = Some (File P))"
    by (simp add: Let_def)
qed

text \<open>
  Witness for C7, on the example machine: \<open>a.dat\<close> encoded as VO with no output path
  returns; the output \<open>FF FB AA\<close> is in the file \<open>.wav\<close>, and \<open>a.dat\<close> still holds
  \<open>AA\<close>. Decoding \<open>voice.wav\<close> with no output path leaves its payload in \<open>.mp3\<close>.
\<close>

theorem empty_output_path_witness:
  "returned (encode testHeader exampleWorld ''a.dat'' VO [])
   \<and> fileAfter (encode testHeader exampleWorld ''a.dat'' VO []) ''.wav''
       = Some (File [CHR 0xFF, CHR 0xFB, CHR 0xAA])
   \<and> fileAfter (encode testHeader exampleWorld ''a.dat'' VO []) ''a.dat'' = Some (File [CHR 0xAA])
   \<and> returned (decode testHeader ''zzzz'' exampleWorld ''voice.wav'' [])
   \<and> fileAfter (decode testHeader ''zzzz'' exampleWorld ''voice.wav'' []) ''.mp3''
       = Some (File ''hi'')
   \<and> fileAfter (decode testHeader ''zzzz'' exampleWorld ''voice.wav'' []) ''voice.wav''
       = Some (File ([CHR 0xFF, CHR 0xFB] @ ''hi''))"
proof -
  have ds: "decodeStream testHeader ''zzzz'' ([CHR 0xFF, CHR 0xFB] @ ''hi'') = (VO, ''hi'')"
    by (simp add: decodeStream_def formatOf_def stream_defs openStream_def fillBuffer_def
        testHeader_simps Let_def)
  have re: "returned (encode testHeader exampleWorld ''a.dat'' VO [])"
    unfolding encode_eq [OF example_files(1) example_temp example_header_VO]
    by (simp add: finish_defs)
  then obtain u w' where e: "encode testHeader exampleWorld ''a.dat'' VO [] = Returns u w'"
    by (rule returnedE)
  have rd: "returned (decode testHeader ''zzzz'' exampleWorld ''voice.wav'' [])"
    unfolding decode_eq [OF example_files(3) example_temp] ds
    by (simp add: finish_defs)
  then obtain u' w'' where
    e': "decode testHeader ''zzzz'' exampleWorld ''voice.wav'' [] = Returns u' w''"
    by (rule returnedE)
  from empty_output_path [OF example_files(1), where format = VO and h = testHeader and w' = w'] e
  have 1: "lookup w' ''.wav'' = Some (File [CHR 0xFF, CHR 0xFB, CHR 0xAA])"
    and 2: "lookup w' ''a.dat'' = Some (File [CHR 0xAA])"
    by (simp_all add: testHeader_simps wav_def)
  from empty_output_path [OF example_files(3), where h = testHeader and stale = "''zzzz''"
      and w' = w''] e' ds
  have 3: "lookup w'' ''.mp3'' = Some (File ''hi'')"
    and 4: "lookup w'' ''voice.wav'' = Some (File ([CHR 0xFF, CHR 0xFB] @ ''hi''))"
    by (simp_all add: Let_def mp3_def)
  from re rd e e' 1 2 3 4 show ?thesis
    by (simp add: outcome_simps)
qed

lemma decode_removes_output:
  assumes rd: "readFile w inputPath = Some bytes"
      and r: "decode h stale w inputPath outputPath = Returns () w'"
      and ex: "exists w outputPath"
      and ne: "replace_extension outputPath (getDecodeExtension (fst (decodeStream h stale bytes)))
         \<noteq> outputPath"
  shows "\<not> exists w' outputPath"
  using r
proof (rule decode_Returns)
  fix bytes' tempPath w1 w2
  assume rd': "readFile w inputPath = Some bytes'"
    and t: "getTempPath w = Returns tempPath w1"
    and c: "createFile w1 tempPath = Some w2"
    and f: "finishOutput (writeFile w2 tempPath (snd (decodeStream h stale bytes'))) tempPath
       outputPath (getDecodeExtension (fst (decodeStream h stale bytes'))) = Returns () w'"
  from rd rd' have bs: "bytes' = bytes"
    by simp
  from ex staged(5) [OF t c] have "outputPath \<noteq> tempPath"
    by auto
  with ex have "exists (writeFile w2 tempPath (snd (decodeStream h stale bytes))) outputPath"
    by (simp add: exists_def staged(2) [OF t c])
  with finishOutput_Returns(2) [OF f [unfolded bs] staged(1) [OF t c]] ne show ?thesis
    by simp
qed

text \<open>
  Claim C2, as the code has it. \<^verbatim>\<open>decode\<close> of codec.cpp has no test of the detected
  format: on a file in which no signature is found it still writes a temporary file and
  renames it to the output path with the extension \<open>.wav\<close>, removing the output path
  if it exists. The file holds the whole input when the input has at least \<open>maxSize\<close>
  bytes, and nothing when it is shorter.
\<close>

theorem decode_unrecognized:
  assumes "readFile w inputPath = Some bytes"
      and "fst (decodeStream h stale bytes) = NONE"
      and "decode h stale w inputPath outputPath = Returns () w'"
  shows "lookup w' (replace_extension outputPath wav)
           = Some (File (if maxSize h \<le> length bytes then bytes else []))
       \<and> (exists w outputPath \<longrightarrow> replace_extension outputPath wav \<noteq> outputPath \<longrightarrow>
            \<not> exists w' outputPath)"
proof -
  have p: "snd (decodeStream h stale bytes) = (if maxSize h \<le> length bytes then bytes else [])"
    using decodeStream_NONE_long [OF _ assms(2)] decodeStream_short [of bytes h stale]
    by (simp add: not_le)
  from decode_leaves(1) [OF assms(1,3)] assms(2) p
  have "lookup w' (replace_extension outputPath wav)
      = Some (File (if maxSize h \<le> length bytes then bytes else []))"
    by (simp add: getDecodeExtension_def)
  moreover from decode_removes_output [OF assms(1,3)] assms(2)
  have "exists w outputPath \<longrightarrow> replace_extension outputPath wav \<noteq> outputPath \<longrightarrow>
      \<not> exists w' outputPath"
    by (simp add: getDecodeExtension_def)
  ultimately show ?thesis ..
qed

text \<open>
  Witness for C2, on the example machine: \<open>plain.dat\<close> holds \<open>abcde\<close>, in which no
  signature is found. Decoding it in place returns; afterwards \<open>plain.wav\<close> holds
  \<open>abcde\<close> and \<open>plain.dat\<close> is gone.
\<close>

theorem decode_unrecognized_witness:
  "fst (decodeStream testHeader ''zzzz'' ''abcde'') = NONE
   \<and> returned (decode testHeader ''zzzz'' exampleWorld ''plain.dat'' ''plain.dat'')
   \<and> fileAfter (decode testHeader ''zzzz'' exampleWorld ''plain.dat'' ''plain.dat'') ''plain.wav''
       = Some (File ''abcde'')
   \<and> fileAfter (decode testHeader ''zzzz'' exampleWorld ''plain.dat'' ''plain.dat'') ''plain.dat''
       = None"
proof -
  have ds: "decodeStream testHeader ''zzzz'' ''abcde'' = (NONE, ''abcde'')"
    by (simp add: decodeStream_def formatOf_def stream_defs openStream_def fillBuffer_def
        testHeader_simps Let_def)
  have ex: "exists exampleWorld ''plain.dat''"
    by (simp add: fs_defs exampleWorld_fields)
  have x: "replace_extension ''plain.dat'' wav = ''plain.wav''"
    by (simp add: path_defs)
  have rd: "returned (decode testHeader ''zzzz'' exampleWorld ''plain.dat'' ''plain.dat'')"
    unfolding decode_eq [OF example_files(2) example_temp] ds
    by (simp add: finish_defs)
  then obtain u w' where
    e: "decode testHeader ''zzzz'' exampleWorld ''plain.dat'' ''plain.dat'' = Returns u w'"
    by (rule returnedE)
  from decode_unrecognized [OF example_files(2), of testHeader "''zzzz''" "''plain.dat''" w'] e ds ex x
  have "lookup w' ''plain.wav'' = Some (File ''abcde'')" and "\<not> exists w' ''plain.dat''"
    by (simp_all add: testHeader_simps)
  with rd e ds show ?thesis
    by (simp add: outcome_simps exists_def)
qed

subsection \<open>The round trip\<close>

lemma roundTrip_Returns:
  assumes "roundTrip h stale w inputPath format encodedPath decodedPath = Returns u w'"
  obtains w1 where "encode h w inputPath format encodedPath = Returns () w1"
    and "decode h stale w1 (replace_extension encodedPath wav) decodedPath = Returns u w'"
  using assms
  by (cases "encode h w inputPath format encodedPath")
    (simp_all add: roundTrip_def getEncodeExtension_def)

lemma roundTrip_decodes_encoded:
  assumes fmt: "format = SFX \<or> format = VO" and rd: "readFile w inputPath = Some P"
      and r: "roundTrip h stale w inputPath format encodedPath decodedPath = Returns () w'"
  shows "lookup w' (replace_extension decodedPath
            (getDecodeExtension (fst (decodeStream h stale (the (getHeader h format) @ P)))))
           = Some (File (snd (decodeStream h stale (the (getHeader h format) @ P))))"
  using r
proof (rule roundTrip_Returns)
  fix w1
  assume e: "encode h w inputPath format encodedPath = Returns () w1"
    and d: "decode h stale w1 (replace_extension encodedPath wav) decodedPath = Returns () w'"
  from encode_leaves(1) [OF fmt rd e]
  have l: "lookup w1 (replace_extension encodedPath wav)
      = Some (File (the (getHeader h format) @ P))" .
  from d obtain bytes where b: "readFile w1 (replace_extension encodedPath wav) = Some bytes"
    by (rule decode_Returns)
  from readFile_lookup [OF b] l have "bytes = the (getHeader h format) @ P"
    by simp
  with b decode_leaves(1) [OF b d] show ?thesis
    by simp
qed

lemma skipHeader_good:
  assumes "good s"
  shows "skipHeader h s SFX = s\<lparr> gpos := sfxSize h \<rparr>" "skipHeader h s VO = s\<lparr> gpos := voSize h \<rparr>"
  using assms by (simp_all add: stream_defs)

lemma decodeStream_encoded_long:
  assumes fmt: "format = SFX \<or> format = VO"
      and long: "maxSize h \<le> sizeOfHeader h format + length P"
      and sig: "sizeOfHeader h format \<noteq> 0"
      and other: "format = VO \<longrightarrow> \<not> (sfxSize h \<noteq> 0 \<and> take (sfxSize h) (vo h @ P) = sfx h)"
  shows "decodeStream h stale (the (getHeader h format) @ P) = (format, P)"
proof -
  let ?bytes = "the (getHeader h format) @ P"
  have g: "good (openStream ?bytes)"
    by (simp add: good_def openStream_def)
  have l: "maxSize h \<le> length (content (openStream ?bytes))"
    using fmt long by (auto simp: openStream_def sfxSize_def voSize_def)
  have c: "content (openStream ?bytes) = ?bytes"
    by (simp add: openStream_def)
  from fmt show ?thesis
  proof
    assume f: "format = SFX"
    with sig have fo: "formatOf h stale (openStream ?bytes) = (SFX, openStream ?bytes)"
      unfolding formatOf_good_long [OF g l] c by (simp add: sfxSize_def)
    have "copyRest (skipHeader h (openStream ?bytes) SFX) = (P, (openStream ?bytes)\<lparr> gpos := length ?bytes \<rparr>)"
      unfolding skipHeader_good(1) [OF g] using f
      by (simp add: copyRest_def openStream_def sfxSize_def)
    with f fo show ?thesis
      by (simp add: decodeStream_def)
  next
    assume f: "format = VO"
    with sig other have fo: "formatOf h stale (openStream ?bytes) = (VO, openStream ?bytes)"
      unfolding formatOf_good_long [OF g l] c by (simp add: voSize_def)
    have "copyRest (skipHeader h (openStream ?bytes) VO) = (P, (openStream ?bytes)\<lparr> gpos := length ?bytes \<rparr>)"
      unfolding skipHeader_good(2) [OF g] using f
      by (simp add: copyRest_def openStream_def voSize_def)
    with f fo show ?thesis
      by (simp add: decodeStream_def)
  qed
qed

text \<open>
  Where the round trip holds: the encoded file has at least \<open>maxSize\<close> bytes, the
  signature is not empty, and a VO file does not begin with the SFX signature.
\<close>

lemma roundTrip_long_payload:
  assumes "format = SFX \<or> format = VO" and "readFile w inputPath = Some P"
      and "maxSize h \<le> sizeOfHeader h format + length P"
      and "sizeOfHeader h format \<noteq> 0"
      and "format = VO \<longrightarrow> \<not> (sfxSize h \<noteq> 0 \<and> take (sfxSize h) (vo h @ P) = sfx h)"
      and "roundTrip h stale w inputPath format encodedPath decodedPath = Returns () w'"
  shows "lookup w' (replace_extension decodedPath (getDecodeExtension format)) = Some (File P)"
  using roundTrip_decodes_encoded [OF assms(1,2,6)]
  by (simp add: decodeStream_encoded_long [OF assms(1,3,4,5)])

text \<open>
  Claim C1, where the code departs from it. When the encoded file (signature and
  payload) is shorter than \<open>maxSize\<close>, the \<^verbatim>\<open>read\<close> in \<^verbatim>\<open>formatOf\<close> meets the
  end of the file and sets \<open>failbit\<close>; the two \<^verbatim>\<open>seekg\<close> calls that follow do
  nothing, the stream buffer stays at the end of the file, and \<^verbatim>\<open>decode\<close> copies
  nothing: the decoded file is empty, whatever the payload was.
\<close>

theorem roundTrip_short_payload:
  assumes "format = SFX \<or> format = VO" and "readFile w inputPath = Some P"
      and "sizeOfHeader h format + length P < maxSize h"
      and "roundTrip h stale w inputPath format encodedPath decodedPath = Returns () w'"
  shows "lookup w' (replace_extension decodedPath
            (getDecodeExtension (fst (decodeStream h stale (the (getHeader h format) @ P)))))
           = Some (File [])"
proof -
  from assms(1,3) have "length (the (getHeader h format) @ P) < maxSize h"
    by (auto simp: sfxSize_def voSize_def)
  then have "snd (decodeStream h stale (the (getHeader h format) @ P)) = []"
    by (rule decodeStream_short)
  with roundTrip_decodes_encoded [OF assms(1,2,4)] show ?thesis
    by simp
qed

text \<open>
  Witness for C1, on the example machine: \<open>a.dat\<close> holds the payload \<open>AA\<close>. Encoded as
  VO it is \<open>FF FB AA\<close>, three bytes where \<open>maxSize\<close> is four; the round trip returns
  and the decoded file \<open>dec.mp3\<close> is empty.
\<close>

theorem roundTrip_short_payload_witness:
  "readFile exampleWorld ''a.dat'' = Some [CHR 0xAA]
   \<and> sizeOfHeader testHeader VO + length [CHR 0xAA] < maxSize testHeader
   \<and> returned (roundTrip testHeader ''zzzz'' exampleWorld ''a.dat'' VO ''enc.dat'' ''dec.dat'')
   \<and> fileAfter (roundTrip testHeader ''zzzz'' exampleWorld ''a.dat'' VO ''enc.dat'' ''dec.dat'')
        ''dec.mp3'' = Some (File [])"
proof -
  define w1 where "w1 = exampleWorld
     \<lparr> nodes := nodes exampleWorld @ [(''enc.wav'', File [CHR 0xFF, CHR 0xFB, CHR 0xAA])],
       drawn := 1 \<rparr>"
  have short: "sizeOfHeader testHeader VO + length [CHR 0xAA] < maxSize testHeader"
    by (simp add: testHeader_simps)
  have e: "encode testHeader exampleWorld ''a.dat'' VO ''enc.dat'' = Returns () w1"
    unfolding encode_eq [OF example_files(1) example_temp example_header_VO] w1_def
    by (simp add: finish_defs)
  have f1: "nodes w1 = nodes exampleWorld @ [(''enc.wav'', File [CHR 0xFF, CHR 0xFB, CHR 0xAA])]"
    "denied w1 = []" "tmpdir w1 = ''tmp''" "names w1 = tempNames" "drawn w1 = 1"
    by (simp_all add: w1_def exampleWorld_fields)
  have rd: "readFile w1 ''enc.wav'' = Some [CHR 0xFF, CHR 0xFB, CHR 0xAA]"
    by (simp add: fs_defs f1 exampleWorld_fields)
  have t: "getTempPath w1 = Returns ''tmp/Tx'' (w1\<lparr> drawn := 2 \<rparr>)"
    by (simp add: getTempPath_def drawTempPath.simps [of w1] f1 exampleWorld_fields fs_defs
        path_append_def tempNames_def)
  have c: "createFile (w1\<lparr> drawn := 2 \<rparr>) ''tmp/Tx''
      = Some (store (w1\<lparr> drawn := 2 \<rparr>) ''tmp/Tx'' (File []))"
    by (simp add: createFile_def is_directory_def lookup_def f1 exampleWorld_fields parent_path_def)
  have ds: "decodeStream testHeader ''zzzz'' [CHR 0xFF, CHR 0xFB, CHR 0xAA] = (VO, [])"
    by (simp add: decodeStream_def formatOf_def stream_defs openStream_def fillBuffer_def
        testHeader_simps Let_def)
  have x: "replace_extension ''enc.dat'' wav = ''enc.wav''"
    "replace_extension ''dec.dat'' mp3 = ''dec.mp3''"
    by (simp_all add: path_defs)
  have "returned (decode testHeader ''zzzz'' w1 ''enc.wav'' ''dec.dat'')"
    unfolding decode_eq [OF rd t c] ds
    by (simp add: finishOutput_def fs_defs path_defs getDecodeExtension_def f1 exampleWorld_fields
        outcome_simps)
  with e x have r: "returned (roundTrip testHeader ''zzzz'' exampleWorld ''a.dat'' VO ''enc.dat'' ''dec.dat'')"
    by (simp add: roundTrip_def getEncodeExtension_def)
  then obtain u w' where
    rt: "roundTrip testHeader ''zzzz'' exampleWorld ''a.dat'' VO ''enc.dat'' ''dec.dat'' = Returns u w'"
    by (rule returnedE)
  from roundTrip_short_payload [OF _ example_files(1) short, of "''zzzz''" "''enc.dat''"
      "''dec.dat''" w'] rt ds x
  have "lookup w' ''dec.mp3'' = Some (File [])"
    by (simp add: testHeader_simps getDecodeExtension_def)
  with r rt example_files(1) short show ?thesis
    by (simp add: outcome_simps)
qed

subsection \<open>Lists of paths\<close>

lemma readLines_Nil: "readLines [] = []"
  by (subst readLines.simps) (simp add: getline_def)

lemma readLines_last_line:
  assumes "CHR 0x0A \<notin> set s" and "s \<noteq> []"
  shows "readLines s = [s]"
proof -
  from assms(1) have tw: "takeWhile (\<lambda>c. c \<noteq> CHR 0x0A) s = s"
    by (auto simp: takeWhile_eq_all_conv)
  have "getline s = Some (s, [])"
    unfolding getline_def Let_def tw using assms(2) by simp
  then show ?thesis
    by (subst readLines.simps) (simp add: readLines_Nil)
qed

lemma readLines_line:
  assumes "CHR 0x0A \<notin> set str"
  shows "readLines (str @ CHR 0x0A # r) = str # readLines r"
proof -
  have "takeWhile (\<lambda>c. c \<noteq> CHR 0x0A) (str @ CHR 0x0A # r) = takeWhile (\<lambda>c. c \<noteq> CHR 0x0A) str"
    by (rule takeWhile_tail) simp
  also from assms have "\<dots> = str"
    by (auto simp: takeWhile_eq_all_conv)
  finally have tw: "takeWhile (\<lambda>c. c \<noteq> CHR 0x0A) (str @ CHR 0x0A # r) = str" .
  have "getline (str @ CHR 0x0A # r) = Some (str, r)"
    unfolding getline_def Let_def tw by simp
  then show ?thesis
    by (subst readLines.simps) simp
qed

lemma line_cases:
  obtains "CHR 0x0A \<notin> set s"
  | str r where "s = str @ CHR 0x0A # r" and "CHR 0x0A \<notin> set str"
  using split_list_first [of "CHR 0x0A" s] by blast

lemma readLines_no_newline: "l \<in> set (readLines s) \<Longrightarrow> CHR 0x0A \<notin> set l"
proof (induction s arbitrary: l rule: length_induct)
  case (1 s)
  show ?case
  proof (cases rule: line_cases [of s])
    case 1
    with "1.prems" show ?thesis
      by (cases "s = []") (simp_all add: readLines_Nil readLines_last_line)
  next
    case (2 str r)
    from 2(1) have "length r < length s"
      by simp
    with "1.IH" have "\<And>l. l \<in> set (readLines r) \<Longrightarrow> CHR 0x0A \<notin> set l"
      by blast
    with "1.prems" 2 show ?thesis
      by (auto simp: readLines_line)
  qed
qed

lemma readLines_concat:
  "concat (map (\<lambda>l. l @ [CHR 0x0A]) (readLines s))
     = (if s = [] \<or> last s = CHR 0x0A then s else s @ [CHR 0x0A])"
proof (induction s rule: length_induct)
  case (1 s)
  show ?case
  proof (cases rule: line_cases [of s])
    case 1
    show ?thesis
    proof (cases "s = []")
      case True
      then show ?thesis
        by (simp add: readLines_Nil)
    next
      case False
      with 1 have "last s \<noteq> CHR 0x0A"
        using last_in_set [of s] by metis
      with 1 False show ?thesis
        by (simp add: readLines_last_line)
    qed
  next
    case (2 str r)
    from 2(1) have "length r < length s"
      by simp
    with "1.IH" have "concat (map (\<lambda>l. l @ [CHR 0x0A]) (readLines r))
        = (if r = [] \<or> last r = CHR 0x0A then r else r @ [CHR 0x0A])"
      by blast
    then show ?thesis
      unfolding 2(1) readLines_line [OF 2(2)] by simp
  qed
qed

lemma batchWorld_fields:
  "nodes batchWorld = [(''tmp'', Dir), (''in'', Dir), (''in/1.wav'', File (''RIFF'' @ ''one'')),
     (''in/2.wav'', File (''RIFF'' @ ''two'')), (''in/3.wav'', File (''RIFF'' @ ''three'')),
     (''list.txt'', File (''in/1.wav'' @ [CHR 0x0A, CHR 0x0A] @ ''in/3.wav'' @ [CHR 0x0A]))]"
  "denied batchWorld = [''in/2.wav'']" "tmpdir batchWorld = ''tmp''"
  "names batchWorld = tempNames" "drawn batchWorld = 0"
  by (simp_all add: batchWorld_def)

lemma list_txt_lines:
  "readLines (''in/1.wav'' @ [CHR 0x0A, CHR 0x0A] @ ''in/3.wav'' @ [CHR 0x0A])
     = [''in/1.wav'', [], ''in/3.wav'']"
proof -
  have 1: "CHR 0x0A \<notin> set ''in/1.wav''" and 3: "CHR 0x0A \<notin> set ''in/3.wav''"
    and 2: "CHR 0x0A \<notin> set []"
    by simp_all
  have "readLines (''in/1.wav'' @ CHR 0x0A # ([] @ CHR 0x0A # (''in/3.wav'' @ CHR 0x0A # [])))
      = [''in/1.wav'', [], ''in/3.wav'']"
    by (simp only: readLines_line [OF 1] readLines_line [OF 2] readLines_line [OF 3]
        readLines_Nil)
  then show ?thesis
    by simp
qed

text \<open>
  Claim C9, as amended. When the input path is a regular file that can be opened,
  \<^verbatim>\<open>loadOperations\<close> returns one operation, with no error, for every line that
  \<^verbatim>\<open>getline\<close> extracts, in the order of the lines and empty lines included: no path
  contains a newline, and the paths, each followed by a newline, make up the file (with a
  newline added after a last line that has none).
\<close>

theorem loadOperations_list_file:
  assumes "lookup w p = Some (File s)" and "p \<notin> set (denied w)"
  shows "loadOperations w p = Inr (map (\<lambda>str. \<lparr> path = str, error = None \<rparr>) (readLines s))
       \<and> (\<forall>l\<in>set (readLines s). CHR 0x0A \<notin> set l)
       \<and> concat (map (\<lambda>l. l @ [CHR 0x0A]) (readLines s))
           = (if s = [] \<or> last s = CHR 0x0A then s else s @ [CHR 0x0A])"
proof -
  from assms have "loadOperations w p
      = Inr (map (\<lambda>str. \<lparr> path = str, error = None \<rparr>) (readLines s))"
    by (simp add: loadOperations_def loadOperationsFromFile_def readFile_def is_directory_def)
  with readLines_no_newline readLines_concat show ?thesis
    by blast
qed

text \<open>
  Witness for C9: the list file of the batch machine, three lines of which the second is
  empty.
\<close>

theorem loadOperations_list_file_witness:
  "lookup batchWorld ''list.txt''
     = Some (File (''in/1.wav'' @ [CHR 0x0A, CHR 0x0A] @ ''in/3.wav'' @ [CHR 0x0A]))
   \<and> ''list.txt'' \<notin> set (denied batchWorld)
   \<and> loadOperations batchWorld ''list.txt''
       = Inr (map (\<lambda>str. \<lparr> path = str, error = None \<rparr>) [''in/1.wav'', [], ''in/3.wav''])"
proof -
  have l: "lookup batchWorld ''list.txt''
      = Some (File (''in/1.wav'' @ [CHR 0x0A, CHR 0x0A] @ ''in/3.wav'' @ [CHR 0x0A]))"
    by (simp add: lookup_def batchWorld_fields)
  have d: "''list.txt'' \<notin> set (denied batchWorld)"
    by (simp add: batchWorld_fields)
  from loadOperations_list_file [OF l d] l d show ?thesis
    unfolding list_txt_lines by simp
qed

text \<open>
  Counterexample to C9 as stated: the same list file has two lines that are not empty,
  and three operations are produced, the second for the empty line.
\<close>

theorem loadOperations_empty_line_counterexample:
  "loadOperations batchWorld ''list.txt''
     = Inr [\<lparr> path = ''in/1.wav'', error = None \<rparr>, \<lparr> path = [], error = None \<rparr>,
            \<lparr> path = ''in/3.wav'', error = None \<rparr>]"
proof -
  have "readFile batchWorld ''list.txt''
      = Some (''in/1.wav'' @ [CHR 0x0A, CHR 0x0A] @ ''in/3.wav'' @ [CHR 0x0A])"
    by (simp add: readFile_def lookup_def batchWorld_fields)
  moreover have "\<not> is_directory batchWorld ''list.txt''"
    by (simp add: is_directory_def lookup_def batchWorld_fields)
  ultimately show ?thesis
    unfolding loadOperations_def loadOperationsFromFile_def
    by (simp add: list_txt_lines [simplified])
qed

subsection \<open>Batches\<close>

lemma prepend_Returns:
  "prepend op r = Returns ops' w' \<longleftrightarrow> (\<exists>t. r = Returns t w' \<and> ops' = op # t)"
  by (cases r) (auto simp: prepend_def)

lemma prepend_Throws: "prepend op r = Throws e w' \<longleftrightarrow> r = Throws e w'"
  by (cases r) (auto simp: prepend_def)

lemma recorded_simps:
  "recorded (Returns u w) old = old" "recorded (Throws e w) old = Some (what e)"
  by (simp_all add: recorded_def)

lemma forEach_not_Throws: "forEach f k w ops \<noteq> Throws e w'"
proof (induction ops arbitrary: k w)
  case Nil
  show ?case by simp
next
  case (Cons op ops)
  then show ?case
    by (cases "f k w op") (simp_all add: prepend_Throws)
qed

lemma forEach_Cons_Returns:
  assumes "forEach f k w (op # ops) = Returns ops' w'"
  obtains wa t where "final_world (f k w op) = Some wa"
    and "forEach f (Suc k) wa ops = Returns t w'"
    and "ops' = op\<lparr> error := recorded (f k w op) (error op) \<rparr> # t"
proof (cases "f k w op")
  case (Returns u wa)
  with assms obtain t where "forEach f (Suc k) wa ops = Returns t w'" and "ops' = op # t"
    by (auto simp: prepend_Returns)
  with Returns that [of wa t] show ?thesis
    by (simp add: final_world_simps recorded_simps)
next
  case (Throws e wa)
  with assms obtain t where "forEach f (Suc k) wa ops = Returns t w'"
    and "ops' = op\<lparr> error := Some (what e) \<rparr> # t"
    by (auto simp: prepend_Returns)
  with Throws that [of wa t] show ?thesis
    by (simp add: final_world_simps recorded_simps)
next
  case Undefined
  with assms show ?thesis by simp
next
  case Unfinished
  with assms show ?thesis by simp
qed

lemma forEach_Cons_eq:
  assumes "final_world (f k w op) = Some wa"
  shows "forEach f k w (op # ops)
     = prepend (op\<lparr> error := recorded (f k w op) (error op) \<rparr>) (forEach f (Suc k) wa ops)"
  using assms by (cases "f k w op") (simp_all add: final_world_simps recorded_simps)

lemma forEach_paths:
  "forEach f k w ops = Returns ops' w' \<Longrightarrow> map path ops' = map path ops"
proof (induction ops arbitrary: k w ops')
  case Nil
  then show ?case by simp
next
  case (Cons op ops)
  from Cons.prems show ?case
  proof (rule forEach_Cons_Returns)
    fix wa t
    assume "forEach f (Suc k) wa ops = Returns t w'"
      and "ops' = op\<lparr> error := recorded (f k w op) (error op) \<rparr> # t"
    with Cons.IH [of "Suc k" wa t] show ?thesis
      by simp
  qed
qed

text \<open>
  The file systems of a loop that returned: the one it started on, and after each
  iteration the one its call left.
\<close>

lemma forEach_chain:
  "forEach f k w ops = Returns ops' w' \<Longrightarrow>
     \<exists>ws. length ws = Suc (length ops) \<and> ws ! 0 = w \<and> last ws = w'
       \<and> (\<forall>i<length ops. final_world (f (k + i) (ws ! i) (ops ! i)) = Some (ws ! Suc i)
             \<and> error (ops' ! i) = recorded (f (k + i) (ws ! i) (ops ! i)) (error (ops ! i)))"
proof (induction ops arbitrary: k w ops')
  case Nil
  then have "length [w] = Suc (length ([] :: FileOperation list)) \<and> [w] ! 0 = w \<and> last [w] = w'"
    by simp
  then show ?case
    by (intro exI [of _ "[w]"]) simp
next
  case (Cons op ops)
  from Cons.prems show ?case
  proof (rule forEach_Cons_Returns)
    fix wa t
    assume fw: "final_world (f k w op) = Some wa"
      and rest: "forEach f (Suc k) wa ops = Returns t w'"
      and ops': "ops' = op\<lparr> error := recorded (f k w op) (error op) \<rparr> # t"
    from Cons.IH [OF rest] obtain ws where l: "length ws = Suc (length ops)"
      and z: "ws ! 0 = wa" and e: "last ws = w'"
      and c: "\<And>i. i < length ops \<Longrightarrow>
            final_world (f (Suc k + i) (ws ! i) (ops ! i)) = Some (ws ! Suc i)
          \<and> error (t ! i) = recorded (f (Suc k + i) (ws ! i) (ops ! i)) (error (ops ! i))"
      by blast
    from l have n: "ws \<noteq> []"
      by auto
    have "final_world (f (k + i) ((w # ws) ! i) ((op # ops) ! i)) = Some ((w # ws) ! Suc i)
        \<and> error (ops' ! i) = recorded (f (k + i) ((w # ws) ! i) ((op # ops) ! i))
              (error ((op # ops) ! i))" if i: "i < length (op # ops)" for i
    proof (cases i)
      case 0
      with fw z ops' show ?thesis
        by simp
    next
      case (Suc j)
      with i have "j < length ops"
        by simp
      from c [OF this] Suc ops' show ?thesis
        by simp
    qed
    moreover from l have "length (w # ws) = Suc (length (op # ops))"
      by simp
    moreover from n e have "last (w # ws) = w'"
      by simp
    moreover have "(w # ws) ! 0 = w"
      by simp
    ultimately show ?thesis
      by blast
  qed
qed

lemma forEach_returns:
  assumes step: "\<And>i w op. distinctTempNames w \<Longrightarrow>
      ends (f i w op) \<and> (\<forall>w'. final_world (f i w op) = Some w' \<longrightarrow> distinctTempNames w')"
  shows "distinctTempNames w \<Longrightarrow> returned (forEach f k w ops)"
proof (induction ops arbitrary: k w)
  case Nil
  show ?case by (simp add: outcome_simps)
next
  case (Cons op ops)
  from step [OF Cons.prems, of k op] obtain wa where fw: "final_world (f k w op) = Some wa"
    and d: "distinctTempNames wa"
    by (auto simp: ends_def)
  from Cons.IH [OF d, of "Suc k"] obtain t w' where "forEach f (Suc k) wa ops = Returns t w'"
    by (rule returnedE)
  moreover have "forEach f k w (op # ops)
      = prepend (op\<lparr> error := recorded (f k w op) (error op) \<rparr>) (forEach f (Suc k) wa ops)"
    by (rule forEach_Cons_eq [where f = f and w = w and op = op, OF fw])
  ultimately show ?case
    by (simp add: prepend_def outcome_simps)
qed

lemma getTempPath_same_env:
  assumes "final_world (getTempPath w) = Some w1"
  shows "same_env w w1"
proof (cases "is_directory w (tmpdir w)")
  case False
  with assms show ?thesis
    by (simp add: getTempPath_def final_world_simps same_env_refl)
next
  case True
  with assms show ?thesis
    by (cases "drawTempPath w (drawn w)")
      (auto simp: getTempPath_def final_world_simps same_env_drawn)
qed

lemma createFile_same_env: "createFile w p = Some w' \<Longrightarrow> same_env w w'"
  by (auto simp: createFile_def same_env_store split: if_splits)

lemma writeFile_same_env: "same_env w (writeFile w p bs)"
  by (simp add: writeFile_def same_env_store)

lemma staged_same_env:
  assumes t: "final_world (getTempPath w) = Some w1" and c: "createFile w1 tempPath = Some w2"
    and f: "final_world (finishOutput (writeFile w2 tempPath bs) tempPath outputPath ext) = Some w'"
  shows "same_env w w'"
proof -
  have "same_env w w2"
    by (rule same_env_trans [OF getTempPath_same_env [OF t] createFile_same_env [OF c]])
  moreover have "same_env w2 w'"
    by (rule same_env_trans [OF writeFile_same_env finishOutput_same_env [OF f]])
  ultimately show ?thesis
    by (rule same_env_trans)
qed

lemma encode_same_env:
  assumes "final_world (encode h w inputPath format outputPath) = Some w'"
  shows "same_env w w'"
proof (cases "readFile w inputPath")
  case None
  with assms show ?thesis
    by (simp add: encode_def final_world_simps same_env_refl)
next
  case (Some P)
  show ?thesis
  proof (cases "getTempPath w")
    case (Returns tempPath w1)
    then have t: "final_world (getTempPath w) = Some w1"
      by (simp add: final_world_simps)
    show ?thesis
    proof (cases "createFile w1 tempPath")
      case None
      with Some Returns assms have "w' = w1"
        by (simp add: encode_def final_world_simps)
      with getTempPath_same_env [OF t] show ?thesis
        by simp
    next
      case c: (Some w2)
      show ?thesis
      proof (cases "ostream_write (getHeader h format) (sizeOfHeader h format)")
        case None
        with Some Returns c assms show ?thesis
          by (simp add: encode_def final_world_simps)
      next
        case o: (Some written)
        from assms show ?thesis
          unfolding encode_eq [OF Some Returns c o] by (rule staged_same_env [OF t c])
      qed
    qed
  next
    case (Throws e w1)
    with Some assms have "final_world (getTempPath w) = Some w'"
      by (simp add: encode_def final_world_simps)
    then show ?thesis
      by (rule getTempPath_same_env)
  next
    case Undefined
    with Some assms show ?thesis
      by (simp add: encode_def final_world_simps)
  next
    case Unfinished
    with Some assms show ?thesis
      by (simp add: encode_def final_world_simps)
  qed
qed

lemma decode_same_env:
  assumes "final_world (decode h stale w inputPath outputPath) = Some w'"
  shows "same_env w w'"
proof (cases "readFile w inputPath")
  case None
  with assms show ?thesis
    by (simp add: decode_def final_world_simps same_env_refl)
next
  case (Some bytes)
  show ?thesis
  proof (cases "getTempPath w")
    case (Returns tempPath w1)
    then have t: "final_world (getTempPath w) = Some w1"
      by (simp add: final_world_simps)
    show ?thesis
    proof (cases "createFile w1 tempPath")
      case None
      with Some Returns assms have "w' = w1"
        by (simp add: decode_def final_world_simps)
      with getTempPath_same_env [OF t] show ?thesis
        by simp
    next
      case c: (Some w2)
      from assms show ?thesis
        unfolding decode_eq [OF Some Returns c] by (rule staged_same_env [OF t c])
    qed
  next
    case (Throws e w1)
    with Some assms have "final_world (getTempPath w) = Some w'"
      by (simp add: decode_def final_world_simps)
    then show ?thesis
      by (rule getTempPath_same_env)
  next
    case Undefined
    with Some assms show ?thesis
      by (simp add: decode_def final_world_simps)
  next
    case Unfinished
    with Some assms show ?thesis
      by (simp add: decode_def final_world_simps)
  qed
qed

lemma decode_ends:
  assumes "distinctTempNames w"
  shows "ends (decode h stale w inputPath outputPath)"
proof (cases "readFile w inputPath")
  case None
  then show ?thesis
    by (simp add: decode_def ends_simps)
next
  case (Some bytes)
  from getTempPath_ends [OF assms] show ?thesis
  proof (rule ends_cases)
    fix e w1
    assume "getTempPath w = Throws e w1"
    with Some show ?thesis
      by (simp add: decode_def ends_simps)
  next
    fix tempPath w1
    assume t: "getTempPath w = Returns tempPath w1"
    show ?thesis
    proof (cases "createFile w1 tempPath")
      case None
      with Some t show ?thesis
        by (simp add: decode_def ends_simps)
    next
      case c: (Some w2)
      show ?thesis
        unfolding decode_eq [OF Some t c] by (rule finishOutput_ends)
    qed
  qed
qed

lemma prepareAll_Returns:
  assumes "prepareAll w inputPath outputPath = Returns (outputDirectory, operations) w1"
  shows "same_env w w1" and "loadOperations w1 inputPath = Inr operations"
    and "outputDirectory = (if outputPath = [] then inputPath else outputPath)"
    and "is_directory w1 outputDirectory"
proof -
  let ?d = "if outputPath = [] then inputPath else outputPath"
  obtain b w2 where c: "(if \<not> exists w ?d \<and> ?d \<noteq> []
              then create_directories w ?d else (True, w)) = (b, w2)"
    by (cases "if \<not> exists w ?d \<and> ?d \<noteq> [] then create_directories w ?d else (True, w)")
  with assms have r: "b \<and> w2 = w1 \<and> is_directory w1 ?d \<and> outputDirectory = ?d
      \<and> loadOperations w1 inputPath = Inr operations"
    unfolding prepareAll_def Let_def
    by (auto split: if_splits bool.splits sum.splits)
  from c have "same_env w w2"
    by (auto simp: same_env_def dest: create_directories_frame split: if_splits)
  with r show "same_env w w1" by simp
  from r show "loadOperations w1 inputPath = Inr operations" by simp
  from r show "outputDirectory = ?d" by simp
  from r show "is_directory w1 outputDirectory" by simp
qed

lemma loadOperations_unset:
  assumes "loadOperations w inputPath = Inr operations" and "op \<in> set operations"
  shows "error op = None"
  using assms
  by (auto simp: loadOperations_def loadOperationsFromFolder_def loadOperationsFromFile_def
      split: if_splits option.splits)

lemma recorded_unset: "recorded r None = map_option what (thrown r)"
  by (cases r) (simp_all add: recorded_def outcome_simps)

lemma forEach_runs:
  assumes step: "\<And>i w op. distinctTempNames w \<Longrightarrow>
      ends (f i w op) \<and> (\<forall>w'. final_world (f i w op) = Some w' \<longrightarrow> distinctTempNames w')"
    and d: "distinctTempNames w" and unset: "\<And>op. op \<in> set ops \<Longrightarrow> error op = None"
  shows "\<exists>ops' ws. forEach f 0 w ops = Returns ops' (last ws)
     \<and> length ws = Suc (length ops) \<and> ws ! 0 = w
     \<and> length ops' = length ops \<and> map path ops' = map path ops
     \<and> (\<forall>i<length ops. final_world (f i (ws ! i) (ops ! i)) = Some (ws ! Suc i)
           \<and> error (ops' ! i) = map_option what (thrown (f i (ws ! i) (ops ! i))))"
proof -
  from forEach_returns [of f, OF step d] obtain ops' w' where
    r: "forEach f 0 w ops = Returns ops' w'"
    by (rule returnedE)
  have p: "map path ops' = map path ops"
    using r by (rule forEach_paths)
  then have l: "length ops' = length ops"
    by (rule map_eq_imp_length_eq)
  from forEach_chain [OF r] obtain ws where lw: "length ws = Suc (length ops)"
    and z: "ws ! 0 = w" and e: "last ws = w'"
    and c: "\<And>i. i < length ops \<Longrightarrow>
            final_world (f (0 + i) (ws ! i) (ops ! i)) = Some (ws ! Suc i)
          \<and> error (ops' ! i) = recorded (f (0 + i) (ws ! i) (ops ! i)) (error (ops ! i))"
    by blast
  have "final_world (f i (ws ! i) (ops ! i)) = Some (ws ! Suc i)
      \<and> error (ops' ! i) = map_option what (thrown (f i (ws ! i) (ops ! i)))"
    if i: "i < length ops" for i
  proof -
    from i have "error (ops ! i) = None"
      by (simp add: unset)
    with c [OF i] show ?thesis
      by (simp add: recorded_unset)
  qed
  with r p l lw z e show ?thesis
    by blast
qed

lemma encodeOp_step:
  assumes "distinctTempNames w" and "format = SFX \<or> format = VO"
  shows "ends (encodeOp h relative inputPath format outputDirectory w op)
    \<and> (\<forall>w'. final_world (encodeOp h relative inputPath format outputDirectory w op) = Some w'
          \<longrightarrow> distinctTempNames w')"
  unfolding encodeOp_def
  using encode_ends [OF assms] same_env_distinct [OF encode_same_env assms(1)] by blast

lemma decodeOp_step:
  assumes "distinctTempNames w"
  shows "ends (decodeOp h stale relative inputPath outputDirectory w op)
    \<and> (\<forall>w'. final_world (decodeOp h stale relative inputPath outputDirectory w op) = Some w'
          \<longrightarrow> distinctTempNames w')"
  unfolding decodeOp_def
  using decode_ends [OF assms] same_env_distinct [OF decode_same_env assms] by blast

text \<open>
  Claim C4. Once the checks that open \<^verbatim>\<open>encodeAll\<close> and \<^verbatim>\<open>decodeAll\<close>
  have resolved the batch into \<open>operations\<close>, the call returns (it does not throw): as many
  operations as were resolved, with the same paths in the same order. There is a file
  system before and after each operation, \<open>ws\<close>: the first is the one the opening checks
  left, the last is the one the batch leaves, and for every index \<open>i\<close> the call
  \<^verbatim>\<open>encode(op.path, format, outputDirectory / getRelativePath(op.path, inputPath))\<close>
  (or the call of \<^verbatim>\<open>decode\<close>) for the \<open>i\<close>-th operation, made on the \<open>i\<close>-th file
  system, ends, whether the calls before it failed or not, and leaves the next file
  system; the error of the \<open>i\<close>-th result is the message of what that call threw, unset
  when it returned. For \<^verbatim>\<open>encodeAll\<close> the format is SFX or VO; the random names of
  the temporary files are distinct.
\<close>

theorem batch_never_aborts:
  assumes "distinctTempNames w"
    and "prepareAll w inputPath outputPath = Returns (outputDirectory, operations) w1"
  shows "(format = SFX \<or> format = VO \<longrightarrow>
      (\<exists>ops' ws. encodeAll h relative w inputPath format outputPath = Returns ops' (last ws)
         \<and> length ws = Suc (length operations) \<and> ws ! 0 = w1
         \<and> length ops' = length operations \<and> map path ops' = map path operations
         \<and> (\<forall>i<length operations.
               final_world (encode h (ws ! i) (path (operations ! i)) format
                 (path_append outputDirectory
                    (getRelativePath relative (path (operations ! i)) inputPath)))
                 = Some (ws ! Suc i)
             \<and> error (ops' ! i) = map_option what
                 (thrown (encode h (ws ! i) (path (operations ! i)) format
                    (path_append outputDirectory
                       (getRelativePath relative (path (operations ! i)) inputPath)))))))
    \<and> (\<exists>ops' ws. decodeAll h stale relative w inputPath outputPath = Returns ops' (last ws)
         \<and> length ws = Suc (length operations) \<and> ws ! 0 = w1
         \<and> length ops' = length operations \<and> map path ops' = map path operations
         \<and> (\<forall>i<length operations.
               final_world (decode h (stale i) (ws ! i) (path (operations ! i))
                 (path_append outputDirectory
                    (getRelativePath relative (path (operations ! i)) inputPath)))
                 = Some (ws ! Suc i)
             \<and> error (ops' ! i) = map_option what
                 (thrown (decode h (stale i) (ws ! i) (path (operations ! i))
                    (path_append outputDirectory
                       (getRelativePath relative (path (operations ! i)) inputPath))))))"
proof -
  from prepareAll_Returns(1) [OF assms(2)] assms(1) have d: "distinctTempNames w1"
    by (rule same_env_distinct)
  have unset: "error op = None" if "op \<in> set operations" for op
    using prepareAll_Returns(2) [OF assms(2)] that by (rule loadOperations_unset)
  have e: "encodeAll h relative w inputPath format outputPath
      = forEach (\<lambda>i. encodeOp h relative inputPath format outputDirectory) 0 w1 operations"
    by (simp add: encodeAll_def assms(2))
  have dd: "decodeAll h stale relative w inputPath outputPath
      = forEach (\<lambda>i. decodeOp h (stale i) relative inputPath outputDirectory) 0 w1 operations"
    by (simp add: decodeAll_def assms(2))
  note de = forEach_runs [of "\<lambda>i. decodeOp h (stale i) relative inputPath outputDirectory"
      w1 operations, OF decodeOp_step d unset, folded dd, unfolded decodeOp_def]
  have "?thesis" if f: "format = SFX \<or> format = VO"
    using forEach_runs [of "\<lambda>i. encodeOp h relative inputPath format outputDirectory"
        w1 operations, OF encodeOp_step [OF _ f] d unset, folded e, unfolded encodeOp_def] de
    by blast
  moreover have "?thesis" if f: "\<not> (format = SFX \<or> format = VO)"
    using f de by blast
  ultimately show ?thesis
    by blast
qed

lemma batch_prepared:
  "prepareAll batchWorld ''in'' ''out''
     = Returns (''out'', [\<lparr> path = ''in/1.wav'', error = None \<rparr>, \<lparr> path = ''in/2.wav'', error = None \<rparr>,
          \<lparr> path = ''in/3.wav'', error = None \<rparr>]) (store batchWorld ''out'' Dir)"
proof -
  have c: "create_directories batchWorld ''out'' = (True, store batchWorld ''out'' Dir)"
    by (subst create_directories.simps, subst create_directories.simps)
      (simp add: fs_defs path_defs batchWorld_fields)
  have n: "nodes (store batchWorld ''out'' Dir) = nodes batchWorld @ [(''out'', Dir)]"
    by (simp add: store_def batchWorld_fields lookup_def)
  have l: "loadOperations (store batchWorld ''out'' Dir) ''in''
      = Inr [\<lparr> path = ''in/1.wav'', error = None \<rparr>, \<lparr> path = ''in/2.wav'', error = None \<rparr>,
          \<lparr> path = ''in/3.wav'', error = None \<rparr>]"
    by (simp add: loadOperations_def loadOperationsFromFolder_def beneath_def n batchWorld_fields
        is_directory_def lookup_def path_append_def)
  have "exists batchWorld ''in''" "\<not> exists batchWorld ''out''"
    "is_directory (store batchWorld ''out'' Dir) ''out''"
    by (simp_all add: exists_def is_directory_def lookup_def n batchWorld_fields)
  with c l show ?thesis
    by (simp add: prepareAll_def Let_def)
qed


lemmas batch_defs = decodeOp_def decode_def encodeOp_def encode_def ostream_write_def
  getEncodeExtension_def getTempPath_def drawTempPath.simps fs_defs path_defs
  batchWorld_fields tempNames_def getRelativePath_def lexicalRelative_def decodeStream_def
  formatOf_def fillBuffer_def stream_defs openStream_def testHeader_simps finishOutput_def
  getDecodeExtension_def prepend_def Let_def create_directories.simps

lemma batch_decoded:
  "map error (operationsOf
      (decodeAll testHeader (\<lambda>i. ''zzzz'') lexicalRelative batchWorld ''in'' ''out''))
     = [None, Some (openErrorMsg ''in/2.wav''), None]"
  "fileAfter (decodeAll testHeader (\<lambda>i. ''zzzz'') lexicalRelative batchWorld ''in'' ''out'')
     ''out/1.wav'' = Some (File ''one'')"
  "fileAfter (decodeAll testHeader (\<lambda>i. ''zzzz'') lexicalRelative batchWorld ''in'' ''out'')
     ''out/2.wav'' = None"
  "fileAfter (decodeAll testHeader (\<lambda>i. ''zzzz'') lexicalRelative batchWorld ''in'' ''out'')
     ''out/3.wav'' = Some (File ''three'')"
  by (simp_all add: decodeAll_def batch_prepared batch_defs operationsOf_def outcome_simps)

lemma batch_encoded:
  "map error (operationsOf (encodeAll testHeader lexicalRelative batchWorld ''in'' VO ''out''))
     = [None, Some (openErrorMsg ''in/2.wav''), None]"
  "fileAfter (encodeAll testHeader lexicalRelative batchWorld ''in'' VO ''out'') ''out/1.wav''
     = Some (File ([CHR 0xFF, CHR 0xFB] @ ''RIFFone''))"
  "fileAfter (encodeAll testHeader lexicalRelative batchWorld ''in'' VO ''out'') ''out/2.wav''
     = None"
  "fileAfter (encodeAll testHeader lexicalRelative batchWorld ''in'' VO ''out'') ''out/3.wav''
     = Some (File ([CHR 0xFF, CHR 0xFB] @ ''RIFFthree''))"
  by (simp_all add: encodeAll_def batch_prepared batch_defs operationsOf_def outcome_simps)

text \<open>
  Witness for C4, on the batch machine, whose directory \<open>in\<close> holds three files of
  which the second cannot be opened: \<^verbatim>\<open>encodeAll("in", VO, "out")\<close> and
  \<^verbatim>\<open>decodeAll("in", "out")\<close> return three operations for the three files, in the
  order of the directory, with the open error on \<open>in/2.wav\<close> only; the first and the
  third file are transformed into \<open>out\<close>, the third after the failure of the second.
\<close>

theorem batch_never_aborts_witness:
  "distinctTempNames batchWorld
   \<and> prepareAll batchWorld ''in'' ''out''
       = Returns (''out'', [\<lparr> path = ''in/1.wav'', error = None \<rparr>,
           \<lparr> path = ''in/2.wav'', error = None \<rparr>, \<lparr> path = ''in/3.wav'', error = None \<rparr>])
           (store batchWorld ''out'' Dir)
   \<and> returned (encodeAll testHeader lexicalRelative batchWorld ''in'' VO ''out'')
   \<and> map path (operationsOf (encodeAll testHeader lexicalRelative batchWorld ''in'' VO ''out''))
       = [''in/1.wav'', ''in/2.wav'', ''in/3.wav'']
   \<and> map error (operationsOf (encodeAll testHeader lexicalRelative batchWorld ''in'' VO ''out''))
       = [None, Some (openErrorMsg ''in/2.wav''), None]
   \<and> fileAfter (encodeAll testHeader lexicalRelative batchWorld ''in'' VO ''out'') ''out/1.wav''
       = Some (File ([CHR 0xFF, CHR 0xFB] @ ''RIFFone''))
   \<and> fileAfter (encodeAll testHeader lexicalRelative batchWorld ''in'' VO ''out'') ''out/3.wav''
       = Some (File ([CHR 0xFF, CHR 0xFB] @ ''RIFFthree''))
   \<and> returned (decodeAll testHeader (\<lambda>i. ''zzzz'') lexicalRelative batchWorld ''in'' ''out'')
   \<and> map path (operationsOf
        (decodeAll testHeader (\<lambda>i. ''zzzz'') lexicalRelative batchWorld ''in'' ''out''))
       = [''in/1.wav'', ''in/2.wav'', ''in/3.wav'']
   \<and> map error (operationsOf
        (decodeAll testHeader (\<lambda>i. ''zzzz'') lexicalRelative batchWorld ''in'' ''out''))
       = [None, Some (openErrorMsg ''in/2.wav''), None]
   \<and> fileAfter (decodeAll testHeader (\<lambda>i. ''zzzz'') lexicalRelative batchWorld ''in'' ''out'')
        ''out/1.wav'' = Some (File ''one'')
   \<and> fileAfter (decodeAll testHeader (\<lambda>i. ''zzzz'') lexicalRelative batchWorld ''in'' ''out'')
        ''out/3.wav'' = Some (File ''three'')"
proof -
  have d: "distinctTempNames batchWorld"
    by (rule tempNames_distinct) (simp_all add: batchWorld_fields)
  note t = batch_never_aborts [OF d batch_prepared, where format = VO and h = testHeader
      and relative = lexicalRelative and stale = "\<lambda>i. ''zzzz''"]
  from t obtain ops1 ws1 where
    e: "encodeAll testHeader lexicalRelative batchWorld ''in'' VO ''out'' = Returns ops1 (last ws1)"
    and pe: "map path ops1 = [''in/1.wav'', ''in/2.wav'', ''in/3.wav'']"
    by auto
  from t obtain ops2 ws2 where
    dd: "decodeAll testHeader (\<lambda>i. ''zzzz'') lexicalRelative batchWorld ''in'' ''out''
        = Returns ops2 (last ws2)"
    and pd: "map path ops2 = [''in/1.wav'', ''in/2.wav'', ''in/3.wav'']"
    by auto
  from e pe have "returned (encodeAll testHeader lexicalRelative batchWorld ''in'' VO ''out'')"
    "map path (operationsOf (encodeAll testHeader lexicalRelative batchWorld ''in'' VO ''out''))
       = [''in/1.wav'', ''in/2.wav'', ''in/3.wav'']"
    by (simp_all add: outcome_simps operationsOf_def)
  moreover from dd pd
  have "returned (decodeAll testHeader (\<lambda>i. ''zzzz'') lexicalRelative batchWorld ''in'' ''out'')"
    "map path (operationsOf
        (decodeAll testHeader (\<lambda>i. ''zzzz'') lexicalRelative batchWorld ''in'' ''out''))
       = [''in/1.wav'', ''in/2.wav'', ''in/3.wav'']"
    by (simp_all add: outcome_simps operationsOf_def)
  ultimately show ?thesis
    using d batch_prepared batch_decoded(1,2,4) batch_encoded(1,2,4) by blast
qed

subsection \<open>Encoding without a format\<close>

lemma copyLoop_failed: "failbit s \<Longrightarrow> copyLoop s ch = []"
  by (subst copyLoop.simps) simp

lemma copyLoop_good:
  assumes "good s"
  shows "copyLoop s ch = drop (gpos s) (content s) @ [last (ch # drop (gpos s) (content s))]"
  using assms
proof (induction "length (content s) - gpos s" arbitrary: s ch)
  case 0
  then have e: "drop (gpos s) (content s) = []"
    by simp
  with 0 have "read s 1 = ([], s\<lparr> gpos := gpos s, failbit := True, eofbit := True \<rparr>)"
    by (simp add: read_def)
  with 0 e show ?case
    by (subst copyLoop.simps) (simp add: good_def copyLoop_failed)
next
  case (Suc n)
  then have lt: "gpos s < length (content s)"
    by simp
  then obtain c cs where e: "drop (gpos s) (content s) = c # cs"
    by (cases "drop (gpos s) (content s)") simp_all
  let ?s = "s\<lparr> gpos := Suc (gpos s) \<rparr>"
  from e have cs: "drop (gpos ?s) (content ?s) = cs"
    using e Cons_nth_drop_Suc [OF lt] by simp
  from Suc.prems e have r: "read s 1 = ([c], ?s)"
    by (simp add: read_def)
  from Suc.prems have g: "good ?s"
    by (simp add: good_def)
  from Suc.hyps(2) have "n = length (content ?s) - gpos ?s"
    by simp
  from Suc.hyps(1) [OF this g, of c] have ih: "copyLoop ?s c = cs @ [last (c # cs)]"
    unfolding cs .
  from Suc.prems r have step: "copyLoop s ch = c # copyLoop ?s c"
    by (subst copyLoop.simps) (simp add: good_def)
  show ?case
    unfolding step ih e by simp
qed

lemma copyLoop_openStream: "copyLoop (openStream bs) ch = bs @ [last (ch # bs)]"
  using copyLoop_good [of "openStream bs" ch] by (simp add: openStream_def good_def)

lemma createFile_other:
  assumes "createFile w p = Some w1" and "q \<noteq> p"
  shows "readFile w1 q = readFile w q"
  using assms
  by (auto simp: createFile_def readFile_def lookup_store store_frame
      split: if_splits option.splits node.splits)

lemma encode_NONE_Undefined:
  assumes "readFile w inputPath = Some P" and "getTempPath w = Returns tempPath w1"
    and "createFile w1 tempPath = Some w2" and "maxSize h \<noteq> 0"
  shows "encode h w inputPath NONE outputPath = Undefined"
  using assms by (simp add: encode_def ostream_write_def)

lemma encode2020_NONE:
  assumes "readFile w inStr = Some P" and "outStr \<noteq> []" and "outStr \<noteq> inStr"
    and "\<not> is_directory w outStr" and "createFile w outStr = Some w1"
  shows "encode2020 h ch w inStr NONE outStr
     = Returns () (writeFile w1 outStr (P @ [last (ch # P)]))"
proof -
  from assms(5,3) have "readFile w1 inStr = readFile w inStr"
    by (intro createFile_other) auto
  with assms show ?thesis
    by (simp add: encode2020_def selectHeader_def ostream_write_def copyLoop_openStream
        TEMP_def Let_def)
qed


text \<open>
  Claim C10, where the code departs from it. For the format \<open>NONE\<close>,
  \<^verbatim>\<open>getHeader\<close> returns the null pointer and \<^verbatim>\<open>sizeOfHeader\<close> returns
  \<open>maxSize\<close>, so that the 2022 \<^verbatim>\<open>encode\<close>, once its input and its temporary
  file are open, reads \<open>maxSize\<close> characters through a null pointer: the call has
  undefined behaviour when \<open>maxSize\<close> is not 0. The 2020 \<^verbatim>\<open>encode\<close> writes no
  character of a header, but its copy is not verbatim: called with an output path other
  than the input, it returns, leaves the input as it was, and the output holds the input
  followed by one more character, the last one read (the value \<open>ch\<close> had at first,
  when the input is empty).
\<close>

theorem encode_NONE_copy:
  assumes "readFile w inputPath = Some P"
  shows "(maxSize h \<noteq> 0 \<and> getTempPath w = Returns tempPath w1 \<and> createFile w1 tempPath = Some w2
         \<longrightarrow> encode h w inputPath NONE outputPath = Undefined)
    \<and> (outStr \<noteq> [] \<and> outStr \<noteq> inputPath \<and> \<not> is_directory w outStr
         \<and> createFile w outStr = Some w3
         \<longrightarrow> returned (encode2020 h ch w inputPath NONE outStr)
           \<and> fileAfter (encode2020 h ch w inputPath NONE outStr) inputPath = Some (File P)
           \<and> fileAfter (encode2020 h ch w inputPath NONE outStr) outStr
               = Some (File (P @ [last (ch # P)]))
           \<and> P @ [last (ch # P)] \<noteq> P)"
proof -
  have "encode h w inputPath NONE outputPath = Undefined"
    if "maxSize h \<noteq> 0 \<and> getTempPath w = Returns tempPath w1 \<and> createFile w1 tempPath = Some w2"
    using that assms by (intro encode_NONE_Undefined) auto
  moreover have "returned (encode2020 h ch w inputPath NONE outStr)
           \<and> fileAfter (encode2020 h ch w inputPath NONE outStr) inputPath = Some (File P)
           \<and> fileAfter (encode2020 h ch w inputPath NONE outStr) outStr
               = Some (File (P @ [last (ch # P)]))
           \<and> P @ [last (ch # P)] \<noteq> P"
    if c: "outStr \<noteq> [] \<and> outStr \<noteq> inputPath \<and> \<not> is_directory w outStr
         \<and> createFile w outStr = Some w3"
  proof -
    from c assms have e: "encode2020 h ch w inputPath NONE outStr
        = Returns () (writeFile w3 outStr (P @ [last (ch # P)]))"
      by (intro encode2020_NONE) auto
    from c have w3: "w3 = store w outStr (File [])"
      by (auto simp: createFile_def split: if_splits)
    from assms have "lookup w inputPath = Some (File P)"
      by (rule readFile_lookup)
    moreover from c have "inputPath \<noteq> outStr"
      by auto
    ultimately have "lookup (writeFile w3 outStr (P @ [last (ch # P)])) inputPath
        = Some (File P)"
      by (simp add: w3 writeFile_def lookup_store)
    moreover have "lookup (writeFile w3 outStr (P @ [last (ch # P)])) outStr
        = Some (File (P @ [last (ch # P)]))"
      by (simp add: writeFile_def lookup_store)
    ultimately show ?thesis
      unfolding e by (simp add: outcome_simps)
  qed
  ultimately show ?thesis
    by blast
qed

text \<open>
  Witness for C10, on the example machine with the signatures of the spec's scenario
  (\<open>maxSize\<close> is 4): \<^verbatim>\<open>encode("a.dat", AudioFormat::None, "out.dat")\<close> of 2022 is
  undefined; \<open>a.dat\<close> holds the one byte \<open>AA\<close>, and the 2020 \<^verbatim>\<open>encode\<close> writes
  \<open>AA AA\<close> to \<open>copy.dat\<close>.
\<close>

theorem encode_NONE_copy_witness:
  "readFile exampleWorld ''a.dat'' = Some [CHR 0xAA]
   \<and> maxSize testHeader \<noteq> 0
   \<and> getTempPath exampleWorld = Returns ''tmp/T'' (exampleWorld\<lparr> drawn := 1 \<rparr>)
   \<and> createFile (exampleWorld\<lparr> drawn := 1 \<rparr>) ''tmp/T''
       = Some (store (exampleWorld\<lparr> drawn := 1 \<rparr>) ''tmp/T'' (File []))
   \<and> encode testHeader exampleWorld ''a.dat'' NONE ''out.dat'' = Undefined
   \<and> \<not> is_directory exampleWorld ''copy.dat''
   \<and> createFile exampleWorld ''copy.dat'' = Some (store exampleWorld ''copy.dat'' (File []))
   \<and> returned (encode2020 testHeader (CHR 0x00) exampleWorld ''a.dat'' NONE ''copy.dat'')
   \<and> fileAfter (encode2020 testHeader (CHR 0x00) exampleWorld ''a.dat'' NONE ''copy.dat'')
        ''a.dat'' = Some (File [CHR 0xAA])
   \<and> fileAfter (encode2020 testHeader (CHR 0x00) exampleWorld ''a.dat'' NONE ''copy.dat'')
        ''copy.dat'' = Some (File [CHR 0xAA, CHR 0xAA])"
proof -
  have r: "readFile exampleWorld ''a.dat'' = Some [CHR 0xAA]"
    by (simp add: readFile_def lookup_def exampleWorld_fields)
  have m: "maxSize testHeader \<noteq> 0"
    by (simp add: testHeader_simps)
  have d: "\<not> is_directory exampleWorld ''copy.dat''"
    by (simp add: is_directory_def lookup_def exampleWorld_fields)
  have c: "createFile exampleWorld ''copy.dat'' = Some (store exampleWorld ''copy.dat'' (File []))"
    by (simp add: createFile_def is_directory_def lookup_def exampleWorld_fields parent_path_def)
  have n: "''copy.dat'' \<noteq> []" "''copy.dat'' \<noteq> ''a.dat''"
    by simp_all
  from encode_NONE_copy [OF r, where h = testHeader and tempPath = "''tmp/T''"
      and ?w1.0 = "exampleWorld\<lparr> drawn := 1 \<rparr>"
      and ?w2.0 = "store (exampleWorld\<lparr> drawn := 1 \<rparr>) ''tmp/T'' (File [])"
      and outputPath = "''out.dat''" and outStr = "''copy.dat''"
      and ?w3.0 = "store exampleWorld ''copy.dat'' (File [])" and ch = "CHR 0x00"]
    m example_temp d c n
  have "encode testHeader exampleWorld ''a.dat'' NONE ''out.dat'' = Undefined"
    "returned (encode2020 testHeader (CHR 0x00) exampleWorld ''a.dat'' NONE ''copy.dat'')"
    "fileAfter (encode2020 testHeader (CHR 0x00) exampleWorld ''a.dat'' NONE ''copy.dat'')
        ''a.dat'' = Some (File [CHR 0xAA])"
    "fileAfter (encode2020 testHeader (CHR 0x00) exampleWorld ''a.dat'' NONE ''copy.dat'')
        ''copy.dat'' = Some (File ([CHR 0xAA] @ [last [CHR 0x00, CHR 0xAA]]))"
    by blast+
  with r m example_temp d c show ?thesis
    by simp
qed

end
